theory Spec2Isabelle
  imports Main "HOL-Library.Sublist" "HOL-Library.Char_ord" "HOL-Library.List_Lexorder"
begin

section \<open>Python values\<close>

text \<open>
  The webhook handler of \<^verbatim>\<open>ni/github.py\<close> works on parsed JSON with free-form key
  lookups. A parsed JSON document is a value of the type below. A \<^verbatim>\<open>str\<close> is held as
  its UTF-8 bytes: prefix tests, substring tests and the lexicographic order on UTF-8 bytes
  agree with those on code points. A \<^verbatim>\<open>dict\<close> is an association list with distinct keys,
  in insertion order. Numbers are the integer literals; floating point is outside the model.
\<close>

datatype json =
    JNull
  | JBool bool
  | JNum int
  | JStr string
  | JArr "json list"
  | JObj "(string \<times> json) list"

datatype error =
    ResponseExit nat "string option"
      \<comment> \<open>Modelled from the spec: \<^verbatim>\<open>abc.ResponseExit(status=..., text=...)\<close>, the early exit
          of \<^verbatim>\<open>ni/abc.py\<close> that answers the webhook with an HTTP status (sections 6 and 7)\<close>
  | HTTPException string              \<comment> \<open>\<^verbatim>\<open>http.client.HTTPException(msg)\<close>\<close>
  | KeyError
  | TypeError
  | AttributeError
  | NameError
  | DecodeError                       \<comment> \<open>the body is not JSON\<close>
  | FormatError                       \<comment> \<open>\<^verbatim>\<open>str.format_map\<close> rejects the template\<close>

definition andthen :: "error + 'a \<Rightarrow> ('a \<Rightarrow> error + 'b) \<Rightarrow> error + 'b" where
  "andthen r f = (case r of Inl e \<Rightarrow> Inl e | Inr x \<Rightarrow> f x)"

text \<open>\<^verbatim>\<open>obj[key]\<close> for a \<^verbatim>\<open>str\<close> key: only a dict can be subscripted by a string.\<close>

fun py_getitem :: "json \<Rightarrow> string \<Rightarrow> error + json" where
  "py_getitem (JObj kvs) key = (case map_of kvs key of None \<Rightarrow> Inl KeyError | Some v \<Rightarrow> Inr v)"
| "py_getitem _ key = Inl TypeError"

text \<open>\<^verbatim>\<open>key in obj\<close> for a \<^verbatim>\<open>str\<close> key: a key of a dict, an element of a list, a
  substring of a string; the other values are not containers.\<close>

fun py_contains :: "string \<Rightarrow> json \<Rightarrow> error + bool" where
  "py_contains key (JObj kvs) = Inr (key \<in> set (map fst kvs))"
| "py_contains key (JArr xs) = Inr (JStr key \<in> set xs)"
| "py_contains key (JStr s) = Inr (sublist key s)"
| "py_contains key _ = Inl TypeError"

text \<open>The key under which a value is stored in a \<^verbatim>\<open>set\<close>: lists and dicts are
  unhashable, and \<^verbatim>\<open>True\<close>, \<^verbatim>\<open>False\<close> are equal to \<^verbatim>\<open>1\<close>, \<^verbatim>\<open>0\<close>.\<close>

fun py_key :: "json \<Rightarrow> error + json" where
  "py_key (JArr xs) = Inl TypeError"
| "py_key (JObj kvs) = Inl TypeError"
| "py_key (JBool b) = Inr (JNum (if b then 1 else 0))"
| "py_key v = Inr v"

definition py_in :: "json \<Rightarrow> json set \<Rightarrow> error + bool" where
  "py_in v S = andthen (py_key v) (\<lambda>k. Inr (k \<in> S))"

definition set_add :: "json \<Rightarrow> json set \<Rightarrow> error + json set" where
  "set_add v S = andthen (py_key v) (\<lambda>k. Inr (insert k S))"

text \<open>Iteration: a list yields its elements, a dict its keys, a string its characters
  (every use below fails with the same error on the first character, so only the emptiness
  of the string matters).\<close>

fun py_iter :: "json \<Rightarrow> error + json list" where
  "py_iter (JArr xs) = Inr xs"
| "py_iter (JObj kvs) = Inr (map (\<lambda>kv. JStr (fst kv)) kvs)"
| "py_iter (JStr s) = Inr (map (\<lambda>c. JStr [c]) s)"
| "py_iter _ = Inl TypeError"

text \<open>\<^verbatim>\<open>x.startswith(p)\<close>: only a \<^verbatim>\<open>str\<close> has the method.\<close>

fun py_startswith :: "json \<Rightarrow> string \<Rightarrow> error + bool" where
  "py_startswith (JStr s) p = Inr (prefix p s)"
| "py_startswith _ p = Inl AttributeError"

text \<open>Decimal rendering of an integer, as \<^verbatim>\<open>'{}'.format(n)\<close> gives it.\<close>

fun str_nat :: "nat \<Rightarrow> string" where
  "str_nat n = (if n < 10 then [''0123456789'' ! n]
                else str_nat (n div 10) @ [''0123456789'' ! (n mod 10)])"

definition str_int :: "int \<Rightarrow> string" where
  "str_int i = (if i < 0 then ''-'' @ str_nat (nat (- i)) else str_nat (nat i))"

definition join_lines :: "string list \<Rightarrow> string" where
  "join_lines ls = concat (butlast (concat (map (\<lambda>l. [l, [CHR 0x0A]]) ls)))"

section \<open>Constants of the module\<close>

definition LABEL_PREFIX :: string where
  "LABEL_PREFIX = ''CLA: ''"

definition CLA_OK :: string where
  \<comment> \<open>the prefix and U+2611\<close>
  "CLA_OK = LABEL_PREFIX @ [CHR 0xE2, CHR 0x98, CHR 0x91]"

definition NO_CLA :: string where
  \<comment> \<open>the prefix and U+2610\<close>
  "NO_CLA = LABEL_PREFIX @ [CHR 0xE2, CHR 0x98, CHR 0x90]"

definition NO_CLA_TEMPLATE :: "string \<Rightarrow> string" where
  \<comment> \<open>\<^verbatim>\<open>NO_CLA_TEMPLATE.format(body=body)\<close>\<close>
  "NO_CLA_TEMPLATE body = join_lines
    [''Hello, and thanks for your contribution!'',
     '''',
     body,
     '''',
     ''Once you have done everything that's needed, please reply here and someone will'',
     ''verify everything is in order.'',
     '''',
     ''Also, please read the'',
     ''[Python's Developer Guide](https://docs.python.org/devguide/) if you have not'',
     ''already.'',
     '''']"

definition NO_CLA_BODY :: string where
  "NO_CLA_BODY = join_lines
    [''Unfortunately our records indicate you have not signed a'',
     ''[PSF contributor agreement](https://www.python.org/psf/contrib/contrib-form/)'',
     ''(CLA). For legal reasons we need you to sign this before we can look at your'',
     ''contribution.'']"

definition NO_USERNAME_BODY :: string where
  \<open>NO_USERNAME_BODY = join_lines
    [''Unfortunately we couldn't find an account corresponding'',
     ''to your GitHub username at [bugs.python.org](http://bugs.python.org/) (b.p.o).'',
     ''If you don't already have an account at b.p.o, please'',
     ''[create one](http://bugs.python.org/user?@template=register) and make sure to'',
     ''add your GitHub username. If you do already have an account at b.p.o then'',
     ''please go there and under "Your Details" add your GitHub username.'',
     '''',
     ''And in case you haven't already, please make sure to sign the'',
     ''[PSF contributor agreement](https://www.python.org/psf/contrib/contrib-form/)'',
     ''(CLA); we can't legally look at your contribution until you have signed the'',
     ''CLA.'']\<close>

datatype PullRequestEvent =
    assigned | unassigned | labeled | unlabeled | opened | closed | reopened | synchronize

fun event_value :: "PullRequestEvent \<Rightarrow> string" where
  "event_value assigned = ''assigned''"
| "event_value unassigned = ''unassigned''"
| "event_value labeled = ''labeled''"
| "event_value unlabeled = ''unlabeled''"
| "event_value opened = ''opened''"
| "event_value closed = ''closed''"
| "event_value reopened = ''reopened''"
| "event_value synchronize = ''synchronize''"

text \<open>Modelled from the spec: \<^verbatim>\<open>abc.Status\<close>, the enumeration of CLA verdicts, which
  \<^verbatim>\<open>ni/abc.py\<close> declares (section 3, CLAStatus).\<close>

datatype Status = signed | not_signed | username_not_found

section \<open>Classifying the inbound request\<close>

record webhook_request =
  content_type :: string
  request_json :: "json option"  \<comment> \<open>what \<^verbatim>\<open>await request.json()\<close> yields; \<open>None\<close>: not JSON\<close>

record host =
  event :: PullRequestEvent
  request :: json

definition UNSUPPORTED_MEDIA_TYPE :: nat where
  "UNSUPPORTED_MEDIA_TYPE = 415"

definition NO_CONTENT :: nat where
  "NO_CONTENT = 204"

definition useful_actions :: "json set" where
  "useful_actions = {JStr (event_value opened), JStr (event_value unlabeled),
                     JStr (event_value synchronize)}"

definition process :: "webhook_request \<Rightarrow> error + host" where
  "process req =
    (if content_type req \<noteq> ''application/json'' then
       Inl (ResponseExit UNSUPPORTED_MEDIA_TYPE
              (Some (''can only accept application/json, not '' @ content_type req)))
     else case request_json req of
       None \<Rightarrow> Inl DecodeError
     | Some payload \<Rightarrow>
         andthen (py_contains ''zen'' payload) (\<lambda>ping.
         if ping then Inl (ResponseExit NO_CONTENT None)
         else
           andthen (py_getitem payload ''action'') (\<lambda>action.
           andthen (py_in action useful_actions) (\<lambda>useful.
           if \<not> useful then Inl (ResponseExit NO_CONTENT None)
           else if action = JStr (event_value opened) then
             Inr \<lparr>event = opened, request = payload\<rparr>
           else if action = JStr (event_value unlabeled) then
             andthen (py_getitem payload ''label'') (\<lambda>l.
             andthen (py_getitem l ''name'') (\<lambda>label.
             andthen (py_startswith label LABEL_PREFIX) (\<lambda>cla.
             if \<not> cla then Inl (ResponseExit NO_CONTENT None)
             else Inr \<lparr>event = unlabeled, request = payload\<rparr>)))
           else if action = JStr (event_value synchronize) then
             Inr \<lparr>event = synchronize, request = payload\<rparr>
           else Inl TypeError))))"

section \<open>Outbound calls\<close>

text \<open>
  The HTTP session (\<^verbatim>\<open>abc.session()\<close>, an \<^verbatim>\<open>aiohttp\<close> client) and the library functions
  \<^verbatim>\<open>urllib.parse.quote\<close> and \<^verbatim>\<open>str.format_map\<close> are parameters of the model. The
  remote side is a state \<open>'w\<close> that answers each request and may change with it. Every
  request is answered: a call that the client library refuses or that fails below HTTP is
  outside the model.
\<close>

datatype http_method = GET | POST | DELETE

record http_request =
  rq_method :: http_method
  rq_url :: json
  rq_data :: "json option"               \<comment> \<open>the document \<^verbatim>\<open>json.dumps\<close> encodes\<close>
  rq_headers :: "(string \<times> string) list"

record response =
  resp_status :: int
  resp_json :: "json option"         \<comment> \<open>what \<^verbatim>\<open>await response.json()\<close> yields\<close>

record 'w env =
  session :: "http_request \<Rightarrow> 'w \<Rightarrow> response \<times> 'w"
  quote :: "string \<Rightarrow> string"
  format_map :: "string \<Rightarrow> string \<Rightarrow> string option"
    \<comment> \<open>\<open>format_map env t v\<close> is \<^verbatim>\<open>t.format_map({'/name': v})\<close>; \<open>None\<close> when it raises\<close>

text \<open>
  The state threaded through a delivery: the remote side, the exchanges made so far (kept
  to state which calls a run makes) and the attribute \<^verbatim>\<open>_labels_url\<close> of the
  \<^verbatim>\<open>Host\<close> object. An exception leaves the state as it is at the raise: nothing is
  rolled back.
\<close>

record 'w st =
  world :: 'w
  trace :: "(http_request \<times> response) list"
  labels_url_attr :: "json option"

type_synonym ('a, 'w) io = "'w st \<Rightarrow> (error + 'a) \<times> 'w st"

definition return :: "'a \<Rightarrow> ('a, 'w) io" where
  "return x = (\<lambda>s. (Inr x, s))"

definition compute :: "error + 'a \<Rightarrow> ('a \<Rightarrow> ('b, 'w) io) \<Rightarrow> ('b, 'w) io" where
  \<comment> \<open>a step without outbound calls, which may raise\<close>
  "compute r f = (\<lambda>s. case r of Inl e \<Rightarrow> (Inl e, s) | Inr x \<Rightarrow> f x s)"

definition await :: "('a, 'w) io \<Rightarrow> ('a \<Rightarrow> ('b, 'w) io) \<Rightarrow> ('b, 'w) io" where
  "await m f = (\<lambda>s. case m s of (Inl e, s') \<Rightarrow> (Inl e, s') | (Inr x, s') \<Rightarrow> f x s')"

definition raise :: "error \<Rightarrow> ('a, 'w) io" where
  "raise e = (\<lambda>s. (Inl e, s))"

definition read_labels_url_attr :: "(json option, 'w) io" where
  \<comment> \<open>\<open>None\<close>: \<^verbatim>\<open>hasattr(self, '_labels_url')\<close> is false\<close>
  "read_labels_url_attr = (\<lambda>s. (Inr (labels_url_attr s), s))"

definition write_labels_url_attr :: "json \<Rightarrow> (unit, 'w) io" where
  "write_labels_url_attr url = (\<lambda>s. (Inr (), s\<lparr>labels_url_attr := Some url\<rparr>))"

definition send :: "'w env \<Rightarrow> http_request \<Rightarrow> (response, 'w) io" where
  "send env rq = (\<lambda>s. case session env rq (world s) of
     (resp, w') \<Rightarrow> (Inr resp, s\<lparr>world := w', trace := trace s @ [(rq, resp)]\<rparr>))"

definition check_response :: "response \<Rightarrow> error + unit" where
  "check_response resp =
    (if resp_status resp \<ge> 300 then
       Inl (HTTPException (''unexpected response: '' @ str_int (resp_status resp)))
     else Inr ())"

definition get :: "'w env \<Rightarrow> json \<Rightarrow> (json, 'w) io" where
  "get env url =
    await (send env \<lparr>rq_method = GET, rq_url = url, rq_data = None, rq_headers = []\<rparr>) (\<lambda>resp.
    compute (check_response resp) (\<lambda>_.
    compute (case resp_json resp of None \<Rightarrow> Inl DecodeError | Some v \<Rightarrow> Inr v) return))"

definition post :: "'w env \<Rightarrow> json \<Rightarrow> json \<Rightarrow> (unit, 'w) io" where
  "post env url payload =
    await (send env \<lparr>rq_method = POST, rq_url = url, rq_data = Some payload,
                      rq_headers = [(''Content-Type'', ''application/json; charset=utf-8'')]\<rparr>)
      (\<lambda>resp.
    compute (check_response resp) return)"

definition delete :: "'w env \<Rightarrow> json \<Rightarrow> (unit, 'w) io" where
  "delete env url =
    await (send env \<lparr>rq_method = DELETE, rq_url = url, rq_data = None, rq_headers = []\<rparr>)
      (\<lambda>resp.
    compute (check_response resp) return)"

section \<open>The contributors of a pull request\<close>

definition add_commit :: "json \<Rightarrow> json set \<Rightarrow> error + json set" where
  \<comment> \<open>the body of the loop over the commits\<close>
  "add_commit commit logins =
    andthen (py_getitem commit ''author'') (\<lambda>author.
    andthen (py_getitem author ''login'') (\<lambda>login.
    andthen (set_add login logins) (\<lambda>logins.
    andthen (py_getitem commit ''committer'') (\<lambda>committer.
    andthen (py_getitem committer ''login'') (\<lambda>login.
    set_add login logins)))))"

fun add_commits :: "json list \<Rightarrow> json set \<Rightarrow> error + json set" where
  "add_commits [] logins = Inr logins"
| "add_commits (commit # commits) logins =
    (case add_commit commit logins of
       Inl e \<Rightarrow> Inl e
     | Inr logins' \<Rightarrow> add_commits commits logins')"

definition usernames :: "'w env \<Rightarrow> host \<Rightarrow> (json set, 'w) io" where
  "usernames env self =
    compute (py_getitem (request self) ''pull_request'') (\<lambda>pull_request.
    compute (andthen (py_getitem pull_request ''user'') (\<lambda>user. py_getitem user ''login''))
      (\<lambda>login.
    compute (set_add login {}) (\<lambda>logins.
    compute (py_getitem pull_request ''commits_url'') (\<lambda>commits_url.
    await (get env commits_url) (\<lambda>commits.
    compute (py_iter commits) (\<lambda>commits.
    compute (add_commits commits logins) return))))))"

section \<open>Labels and comments\<close>

definition labels_url :: "'w env \<Rightarrow> host \<Rightarrow> string option \<Rightarrow> (string, 'w) io" where
  "labels_url env self label =
    await read_labels_url_attr (\<lambda>attr.
    await (case attr of
             Some _ \<Rightarrow> return ()
           | None \<Rightarrow>
               compute (andthen (py_getitem (request self) ''pull_request'')
                       (\<lambda>pull_request. py_getitem pull_request ''issue_url'')) (\<lambda>issue_url.
               await (get env issue_url) (\<lambda>issue_data.
               compute (py_getitem issue_data ''labels_url'') (\<lambda>url.
               write_labels_url_attr url)))) (\<lambda>_.
    let quoted_label = (case label of None \<Rightarrow> '''' | Some l \<Rightarrow> ''/'' @ quote env l) in
    await read_labels_url_attr (\<lambda>attr.
    case attr of
      Some (JStr template) \<Rightarrow>
        compute (case format_map env template quoted_label of
                None \<Rightarrow> Inl FormatError
              | Some url \<Rightarrow> Inr url) return
    | _ \<Rightarrow> raise AttributeError)))"

fun cla_names :: "json list \<Rightarrow> error + string list" where
  \<comment> \<open>the names of the labels, filtered by the prefix, in the order of the labels\<close>
  "cla_names [] = Inr []"
| "cla_names (item # items) =
    (case py_getitem item ''name'' of
       Inl e \<Rightarrow> Inl e
     | Inr (JStr x) \<Rightarrow>
        (case cla_names items of
           Inl e \<Rightarrow> Inl e
         | Inr xs \<Rightarrow> Inr (if prefix LABEL_PREFIX x then x # xs else xs))
     | Inr _ \<Rightarrow> Inl AttributeError)"

definition current_label :: "'w env \<Rightarrow> host \<Rightarrow> (string option, 'w) io" where
  "current_label env self =
    await (labels_url env self None) (\<lambda>labels_url.
    await (get env (JStr labels_url)) (\<lambda>labels.
    compute (py_iter labels) (\<lambda>all_labels.
    compute (cla_names all_labels) (\<lambda>cla_labels.
    let cla_labels = sort cla_labels in
    return (if length cla_labels > 0 then Some (cla_labels ! 0) else None)))))"

definition set_label :: "'w env \<Rightarrow> host \<Rightarrow> Status \<Rightarrow> (string, 'w) io" where
  "set_label env self status =
    await (labels_url env self None) (\<lambda>labels_url.
    if status = signed then
      await (post env (JStr labels_url) (JArr [JStr CLA_OK])) (\<lambda>_. return CLA_OK)
    else
      await (post env (JStr labels_url) (JArr [JStr NO_CLA])) (\<lambda>_. return NO_CLA))"

definition remove_label :: "'w env \<Rightarrow> host \<Rightarrow> (string option, 'w) io" where
  "remove_label env self =
    await (current_label env self) (\<lambda>cla_label.
    case cla_label of
      None \<Rightarrow> return None
    | Some l \<Rightarrow>
        await (labels_url env self (Some l)) (\<lambda>deletion_url.
        await (delete env (JStr deletion_url)) (\<lambda>_.
        return (Some l))))"

definition comment :: "'w env \<Rightarrow> host \<Rightarrow> Status \<Rightarrow> (string option, 'w) io" where
  "comment env self status =
    compute (andthen (py_getitem (request self) ''pull_request'')
            (\<lambda>pull_request. py_getitem pull_request ''comments_url'')) (\<lambda>comments_url.
    case status of
      signed \<Rightarrow> return None
    | not_signed \<Rightarrow>
        (let message = NO_CLA_TEMPLATE NO_CLA_BODY in
         await (post env comments_url (JObj [(''body'', JStr message)])) (\<lambda>_.
         return (Some message)))
    | username_not_found \<Rightarrow>
        (let message = NO_CLA_TEMPLATE NO_USERNAME_BODY in
         await (post env comments_url (JObj [(''body'', JStr message)])) (\<lambda>_.
         return (Some message))))"

definition update :: "'w env \<Rightarrow> host \<Rightarrow> Status \<Rightarrow> (unit, 'w) io" where
  "update env self status =
    (if event self = opened then
       await (set_label env self status) (\<lambda>_.
       await (comment env self status) (\<lambda>_.
       return ()))
     else if event self = unlabeled then
       await (set_label env self status) (\<lambda>_.
       return ())
     else if event self = synchronize then
       await (current_label env self) (\<lambda>current_label.
       if status = signed then
         (if current_label \<noteq> Some CLA_OK then
            await (remove_label env self) (\<lambda>_. return ())
          else return ())
       else if current_label \<noteq> Some NO_CLA then
         await (remove_label env self) (\<lambda>_.
         await (comment env self status) (\<lambda>_.
         return ()))
       else return ())
     else
       \<comment> \<open>\<^verbatim>\<open>raise RunimeError(msg)\<close>: the name is not defined\<close>
       raise NameError)"

section \<open>What a run does\<close>

text \<open>The exchanges a run makes between two states, and the requests among them that
  change the pull request (everything but a \<open>GET\<close>).\<close>

definition made :: "'w st \<Rightarrow> 'w st \<Rightarrow> (http_request \<times> response) list" where
  "made s s' = drop (length (trace s)) (trace s')"

definition mutations :: "'w st \<Rightarrow> 'w st \<Rightarrow> http_request list" where
  "mutations s s' = filter (\<lambda>rq. rq_method rq \<noteq> GET) (map fst (made s s'))"

definition answered_ok :: "http_request \<times> response \<Rightarrow> bool" where
  "answered_ok x = (resp_status (snd x) < 300)"

text \<open>
  An operation aborts on a bad status when, from every state, each exchange it makes but the
  last was answered below 300, and it raises \<open>HTTPException\<close> exactly when the last
  exchange was answered with 300 or more, the message carrying that status. So nothing is
  sent after such an answer, and the request is not sent again.
\<close>

definition aborts_on_bad_status :: "('a, 'w) io \<Rightarrow> bool" where
  "aborts_on_bad_status m =
    (\<forall>s. case m s of (r, s') \<Rightarrow>
       (\<exists>new. trace s' = trace s @ new
          \<and> list_all answered_ok (butlast new)
          \<and> (case r of
                Inl (HTTPException msg) \<Rightarrow>
                  new \<noteq> [] \<and> \<not> answered_ok (last new)
                  \<and> msg = ''unexpected response: '' @ str_int (resp_status (snd (last new)))
              | _ \<Rightarrow> list_all answered_ok new)))"

section \<open>The CLA status aggregator\<close>

text \<open>
  Modelled from the spec: the CLA status aggregator (section 4.3), which is not part of
  \<^verbatim>\<open>ni/github.py\<close>. Each username is looked up in the CLA records, and the verdicts are
  reduced with the precedence of the spec, the highest winning: \<open>username_not_found\<close> over
  \<open>not_signed\<close> over \<open>signed\<close>.
\<close>

fun precedence :: "Status \<Rightarrow> nat" where
  \<comment> \<open>Modelled from the spec: the precedence of the verdicts (section 4.3)\<close>
  "precedence signed = 0"
| "precedence not_signed = 1"
| "precedence username_not_found = 2"

definition highest :: "Status \<Rightarrow> Status \<Rightarrow> Status" where
  \<comment> \<open>Modelled from the spec: of two verdicts, the one of highest precedence wins\<close>
  "highest a b = (if precedence b \<le> precedence a then a else b)"

definition aggregate :: "(string \<Rightarrow> Status) \<Rightarrow> string list \<Rightarrow> Status" where
  \<comment> \<open>Modelled from the spec: the reduction of the verdicts of the usernames (section 4.3)\<close>
  "aggregate lookup names = foldr highest (map lookup names) signed"

section \<open>A reference remote side\<close>

text \<open>
  The GitHub endpoints of section 6 of the spec for one pull request, to run the handler
  on: the issue resource with its templated \<^verbatim>\<open>labels_url\<close>, the labels of the issue, the
  comments and the commits. Any other request is answered with 404. Nothing but the requests
  of the handler changes this state.
\<close>

record github =
  gh_labels :: "string list"
  gh_comments :: "string list"
  gh_commits :: json

definition issue_url0 :: string where
  "issue_url0 = ''https://api.github.com/repos/o/r/issues/1''"

definition labels_base :: string where
  "labels_base = issue_url0 @ ''/labels''"

definition labels_template :: string where
  "labels_template = labels_base @ ''{/name}''"

definition comments_url0 :: string where
  "comments_url0 = issue_url0 @ ''/comments''"

definition commits_url0 :: string where
  "commits_url0 = ''https://api.github.com/repos/o/r/pulls/1/commits''"

definition quote_char :: "char \<Rightarrow> string" where
  \<comment> \<open>\<^verbatim>\<open>urllib.parse.quote\<close> on one byte, with the default \<^verbatim>\<open>safe='/'\<close>\<close>
  "quote_char c =
    (if c \<in> set ''ABCDEFGHIJKLMNOPQRSTUVWXYZabcdefghijklmnopqrstuvwxyz0123456789_.-~/''
     then [c]
     else [CHR ''%'', ''0123456789ABCDEF'' ! (of_char c div 16),
           ''0123456789ABCDEF'' ! (of_char c mod 16)])"

definition percent_quote :: "string \<Rightarrow> string" where
  "percent_quote s = concat (map quote_char s)"

fun expand_name :: "string \<Rightarrow> string \<Rightarrow> string option" where
  \<comment> \<open>\<^verbatim>\<open>format_map\<close> for templates whose only replacement field is \<^verbatim>\<open>{/name}\<close>\<close>
  "expand_name [] v = Some []"
| "expand_name (c # cs) v =
    (if c = CHR ''{'' then
       (if prefix ''/name}'' cs then map_option (\<lambda>r. v @ r) (expand_name (drop 6 cs) v)
        else None)
     else if c = CHR ''}'' then None
     else map_option (\<lambda>r. c # r) (expand_name cs v))"

definition label_doc :: "string \<Rightarrow> json" where
  "label_doc l = JObj [(''name'', JStr l)]"

definition answer :: "int \<Rightarrow> json option \<Rightarrow> response" where
  "answer code doc = \<lparr>resp_status = code, resp_json = doc\<rparr>"

definition github_session :: "http_request \<Rightarrow> github \<Rightarrow> response \<times> github" where
  "github_session rq w =
    (case rq_url rq of
       JStr u \<Rightarrow>
        (case rq_method rq of
           GET \<Rightarrow>
             if u = issue_url0 then
               (answer 200 (Some (JObj [(''labels_url'', JStr labels_template)])), w)
             else if u = labels_base then
               (answer 200 (Some (JArr (map label_doc (gh_labels w)))), w)
             else if u = commits_url0 then
               (answer 200 (Some (gh_commits w)), w)
             else (answer 404 None, w)
         | POST \<Rightarrow>
             if u = labels_base then
               (case rq_data rq of
                  Some (JArr [JStr l]) \<Rightarrow>
                    (let ls = (if l \<in> set (gh_labels w) then gh_labels w else gh_labels w @ [l])
                     in (answer 200 (Some (JArr (map label_doc ls))), w\<lparr>gh_labels := ls\<rparr>))
                | _ \<Rightarrow> (answer 422 None, w))
             else if u = comments_url0 then
               (case rq_data rq of
                  Some (JObj [(k, JStr b)]) \<Rightarrow>
                    if k = ''body'' then
                      (answer 201 (Some (JObj [(''body'', JStr b)])),
                       w\<lparr>gh_comments := gh_comments w @ [b]\<rparr>)
                    else (answer 422 None, w)
                | _ \<Rightarrow> (answer 422 None, w))
             else (answer 404 None, w)
         | DELETE \<Rightarrow>
             if u \<in> set (map (\<lambda>l. labels_base @ ''/'' @ percent_quote l) (gh_labels w)) then
               (let ls = filter (\<lambda>l. u \<noteq> labels_base @ ''/'' @ percent_quote l) (gh_labels w)
                in (answer 200 (Some (JArr (map label_doc ls))), w\<lparr>gh_labels := ls\<rparr>))
             else (answer 404 None, w))
     | _ \<Rightarrow> (answer 404 None, w))"

definition github_env :: "github env" where
  "github_env = \<lparr>session = github_session, quote = percent_quote, format_map = expand_name\<rparr>"

definition pull_request_payload :: "string \<Rightarrow> string \<Rightarrow> json" where
  \<comment> \<open>a \<^verbatim>\<open>pull_request\<close> webhook payload with the fields of section 6\<close>
  "pull_request_payload action comments_url =
    JObj [(''action'', JStr action),
          (''pull_request'',
           JObj [(''user'', JObj [(''login'', JStr ''alice'')]),
                 (''commits_url'', JStr commits_url0),
                 (''issue_url'', JStr issue_url0),
                 (''comments_url'', JStr comments_url)])]"

definition pull_request_event :: "string \<Rightarrow> json" where
  "pull_request_event action = pull_request_payload action comments_url0"

definition contribution :: "PullRequestEvent \<Rightarrow> host" where
  "contribution ev = \<lparr>event = ev, request = pull_request_event (event_value ev)\<rparr>"

definition start :: "github \<Rightarrow> github st" where
  \<comment> \<open>a fresh \<^verbatim>\<open>Host\<close> object in front of the remote side\<close>
  "start w = \<lparr>world = w, trace = [], labels_url_attr = None\<rparr>"

definition stale_contribution :: host where
  \<comment> \<open>an \<^verbatim>\<open>opened\<close> event whose \<^verbatim>\<open>comments_url\<close> the remote side does not serve\<close>
  "stale_contribution =
    \<lparr>event = opened,
     request = pull_request_payload ''opened'' ''https://api.github.com/repos/o/r/issues/2/comments''\<rparr>"

definition commit_by :: "string \<Rightarrow> string \<Rightarrow> json" where
  "commit_by a c = JObj [(''author'', JObj [(''login'', JStr a)]),
                         (''committer'', JObj [(''login'', JStr c)])]"

definition pull_request0 :: "string list \<Rightarrow> github" where
  \<comment> \<open>a pull request with the given labels, no comment and one commit\<close>
  "pull_request0 labels =
    \<lparr>gh_labels = labels, gh_comments = [], gh_commits = JArr [commit_by ''bob'' ''web-flow'']\<rparr>"

section \<open>Vocabulary for the statements\<close>

definition local_error :: "error \<Rightarrow> bool" where
  "local_error e = (e \<in> {KeyError, TypeError, AttributeError, NameError, DecodeError, FormatError})"

definition raises_locally :: "error + 'a \<Rightarrow> bool" where
  "raises_locally r = (\<forall>e. r = Inl e \<longrightarrow> local_error e)"

definition only_reads :: "(http_request \<times> response) list \<Rightarrow> bool" where
  "only_reads new = list_all (\<lambda>x. rq_method (fst x) = GET) new"

definition delete_call :: "string \<Rightarrow> http_request" where
  "delete_call url = \<lparr>rq_method = DELETE, rq_url = JStr url, rq_data = None, rq_headers = []\<rparr>"

definition set_label_call :: "string \<Rightarrow> string \<Rightarrow> http_request" where
  "set_label_call url label =
    \<lparr>rq_method = POST, rq_url = JStr url, rq_data = Some (JArr [JStr label]),
     rq_headers = [(''Content-Type'', ''application/json; charset=utf-8'')]\<rparr>"

definition comment_call :: "json \<Rightarrow> string \<Rightarrow> http_request" where
  "comment_call url message =
    \<lparr>rq_method = POST, rq_url = url, rq_data = Some (JObj [(''body'', JStr message)]),
     rq_headers = [(''Content-Type'', ''application/json; charset=utf-8'')]\<rparr>"

definition list_call :: "string \<Rightarrow> http_request" where
  "list_call url = \<lparr>rq_method = GET, rq_url = JStr url, rq_data = None, rq_headers = []\<rparr>"

definition cla_labels_of :: "json list \<Rightarrow> string set" where
  "cla_labels_of items =
    {x. prefix LABEL_PREFIX x \<and> (\<exists>item \<in> set items. py_getitem item ''name'' = Inr (JStr x))}"

definition first_of :: "string set \<Rightarrow> string option \<Rightarrow> bool" where
  \<comment> \<open>\<open>l\<close> is the lexicographically first element of \<open>C\<close>, or nothing when \<open>C\<close> is empty\<close>
  "first_of C l = (case l of None \<Rightarrow> C = {} | Some x \<Rightarrow> x \<in> C \<and> (\<forall>y \<in> C. x \<le> y))"

definition pr_field :: "host \<Rightarrow> string \<Rightarrow> error + json" where
  \<comment> \<open>\<^verbatim>\<open>self.request['pull_request'][key]\<close>\<close>
  "pr_field self key = andthen (py_getitem (request self) ''pull_request'')
                         (\<lambda>pull_request. py_getitem pull_request key)"

definition target_label :: "Status \<Rightarrow> string" where
  "target_label status = (if status = signed then CLA_OK else NO_CLA)"

definition comment_calls :: "host \<Rightarrow> Status \<Rightarrow> http_request list" where
  \<comment> \<open>the comment of a status: none when signed, else one post of the message of the status\<close>
  "comment_calls self status =
    (case (status, pr_field self ''comments_url'') of
       (not_signed, Inr url) \<Rightarrow> [comment_call url (NO_CLA_TEMPLATE NO_CLA_BODY)]
     | (username_not_found, Inr url) \<Rightarrow> [comment_call url (NO_CLA_TEMPLATE NO_USERNAME_BODY)]
     | _ \<Rightarrow> [])"

definition failure_body :: "Status \<Rightarrow> string" where
  "failure_body status = (if status = not_signed then NO_CLA_BODY else NO_USERNAME_BODY)"

definition commit_logins :: "json list \<Rightarrow> json set" where
  \<comment> \<open>the keys of the author login and the committer login of every commit\<close>
  "commit_logins commits =
    {k. \<exists>commit \<in> set commits. \<exists>role \<in> {''author'', ''committer''}. \<exists>person login.
          py_getitem commit role = Inr person \<and> py_getitem person ''login'' = Inr login
          \<and> py_key login = Inr k}"

definition fetch_call :: "json \<Rightarrow> http_request" where
  "fetch_call url = \<lparr>rq_method = GET, rq_url = url, rq_data = None, rq_headers = []\<rparr>"

definition gh_ready :: "github st \<Rightarrow> bool" where
  \<comment> \<open>the labels URL is not cached yet, or is the one the remote side serves\<close>
  "gh_ready s = (labels_url_attr s = None \<or> labels_url_attr s = Some (JStr labels_template))"

definition first_cla :: "string list \<Rightarrow> string option" where
  "first_cla ls = (let xs = sort (filter (prefix LABEL_PREFIX) ls)
                   in if xs = [] then None else Some (xs ! 0))"

definition gh_step :: "github st \<Rightarrow> github st \<Rightarrow> github \<Rightarrow> http_request list \<Rightarrow> bool" where
  \<comment> \<open>from \<open>s\<close> to \<open>s'\<close>: the remote side becomes \<open>w'\<close>, the labels URL is cached, and the
      requests made that change the pull request are \<open>muts\<close>\<close>
  "gh_step s s' w' muts =
    (world s' = w' \<and> labels_url_attr s' = Some (JStr labels_template)
     \<and> (\<exists>new. trace s' = trace s @ new
               \<and> filter (\<lambda>rq. rq_method rq \<noteq> GET) (map fst new) = muts))"

definition removed_from :: "string option \<Rightarrow> string list \<Rightarrow> string list" where
  \<comment> \<open>the labels left by the deletion of a label\<close>
  "removed_from removed ls =
    (case removed of
       None \<Rightarrow> ls
     | Some l \<Rightarrow> filter (\<lambda>x. percent_quote x \<noteq> percent_quote l) ls)"

definition comment_texts :: "Status \<Rightarrow> string list" where
  "comment_texts status =
    (if status = signed then [] else [NO_CLA_TEMPLATE (failure_body status)])"

definition removal_calls :: "string option \<Rightarrow> http_request list" where
  "removal_calls removed =
    (case removed of
       None \<Rightarrow> []
     | Some l \<Rightarrow> [delete_call (labels_base @ ''/'' @ percent_quote l)])"

definition comment_posts :: "Status \<Rightarrow> http_request list" where
  "comment_posts status = map (comment_call (JStr comments_url0)) (comment_texts status)"

definition after_synchronize :: "Status \<Rightarrow> github \<Rightarrow> github" where
  \<comment> \<open>the pull request after a \<^verbatim>\<open>synchronize\<close> run\<close>
  "after_synchronize status w =
    (if first_cla (gh_labels w) = Some (target_label status) then w
     else w\<lparr>gh_labels := removed_from (first_cla (gh_labels w)) (gh_labels w),
            gh_comments := gh_comments w @ comment_texts status\<rparr>)"

definition synchronize_calls :: "Status \<Rightarrow> github \<Rightarrow> http_request list" where
  "synchronize_calls status w =
    (if first_cla (gh_labels w) = Some (target_label status) then []
     else removal_calls (first_cla (gh_labels w)) @ comment_posts status)"

definition canonical :: "string list \<Rightarrow> bool" where
  \<comment> \<open>every label with the prefix is one of the two labels of the module\<close>
  "canonical ls = (\<forall>l \<in> set ls. prefix LABEL_PREFIX l \<longrightarrow> l = CLA_OK \<or> l = NO_CLA)"

section \<open>Properties\<close>

subsection \<open>Errors of the steps without outbound calls\<close>

text \<open>
  The lookups, membership tests and iterations raise \<open>KeyError\<close>, \<open>TypeError\<close> or
  \<open>AttributeError\<close> only: never an early exit, never a transport error.
\<close>

lemma andthen_simps [simp]:
  "andthen (Inl e) f = Inl e"
  "andthen (Inr x) f = f x"
  by (simp_all add: andthen_def)

lemma py_getitem_Inl: "py_getitem x k = Inl e \<Longrightarrow> e = KeyError \<or> e = TypeError"
  by (cases x) (auto split: option.splits)

lemma py_contains_Inl: "py_contains k x = Inl e \<Longrightarrow> e = TypeError"
  by (cases x) auto

lemma py_key_Inl: "py_key x = Inl e \<Longrightarrow> e = TypeError"
  by (cases x) auto

lemma py_iter_Inl: "py_iter x = Inl e \<Longrightarrow> e = TypeError"
  by (cases x) auto

lemma set_add_Inl: "set_add x S = Inl e \<Longrightarrow> e = TypeError"
  by (cases "py_key x") (auto simp: set_add_def dest: py_key_Inl)

lemma raises_locally_simps [simp]:
  "raises_locally (Inr x)"
  "raises_locally (Inl e) = local_error e"
  by (simp_all add: raises_locally_def)

lemma local_error_simps [simp]:
  "local_error KeyError" "local_error TypeError" "local_error AttributeError"
  "local_error NameError" "local_error DecodeError" "local_error FormatError"
  "\<not> local_error (HTTPException m)" "\<not> local_error (ResponseExit n t)"
  by (simp_all add: local_error_def)

lemma raises_locally_andthen:
  "raises_locally r \<Longrightarrow> (\<And>x. raises_locally (f x)) \<Longrightarrow> raises_locally (andthen r f)"
  by (cases r) simp_all

lemma py_getitem_local [simp]: "raises_locally (py_getitem x k)"
  by (auto simp: raises_locally_def dest: py_getitem_Inl)

lemma py_iter_local [simp]: "raises_locally (py_iter x)"
  by (auto simp: raises_locally_def dest: py_iter_Inl)

lemma set_add_local [simp]: "raises_locally (set_add x S)"
  by (auto simp: raises_locally_def dest: set_add_Inl)

lemma add_commit_local [simp]: "raises_locally (add_commit c S)"
  unfolding add_commit_def by (intro raises_locally_andthen) simp_all

lemma add_commits_local [simp]: "raises_locally (add_commits cs S)"
proof (induction cs arbitrary: S)
  case Nil
  show ?case by simp
next
  case (Cons c cs)
  have "raises_locally (add_commit c S)" by simp
  with Cons show ?case by (cases "add_commit c S") simp_all
qed

lemma cla_names_local [simp]: "raises_locally (cla_names items)"
proof (induction items)
  case Nil
  show ?case by simp
next
  case (Cons i items)
  have g: "raises_locally (py_getitem i ''name'')" by simp
  show ?case
  proof (cases "py_getitem i ''name''")
    case (Inl e)
    with g show ?thesis by simp
  next
    case (Inr v)
    with Cons show ?thesis
      by (cases v; cases "cla_names items") simp_all
  qed
qed

subsection \<open>No request after a bad status\<close>

text \<open>
  \<open>aborts_on_bad_status\<close> holds of the three kinds of exchange and is kept by sequencing,
  so it holds of every operation of the handler.
\<close>

lemma aborts_return [simp]: "aborts_on_bad_status (return x)"
  by (simp add: aborts_on_bad_status_def return_def)

lemma aborts_compute:
  "raises_locally r \<Longrightarrow> (\<And>x. aborts_on_bad_status (f x)) \<Longrightarrow> aborts_on_bad_status (compute r f)"
  unfolding aborts_on_bad_status_def compute_def
  by (cases r) (auto simp: local_error_def)

lemma aborts_quiet:
  "(\<And>s. trace (snd (m s)) = trace s \<and> raises_locally (fst (m s))) \<Longrightarrow> aborts_on_bad_status m"
  unfolding aborts_on_bad_status_def
proof (intro allI)
  fix s
  assume a: "\<And>s. trace (snd (m s)) = trace s \<and> raises_locally (fst (m s))"
  obtain r s' where m: "m s = (r, s')" by (cases "m s")
  from a [of s] m have t: "trace s' = trace s" and l: "raises_locally r" by simp_all
  from l have "case r of Inl (HTTPException msg) \<Rightarrow> False | _ \<Rightarrow> True"
    by (auto simp: raises_locally_def split: sum.splits error.splits)
  then have "case r of Inl (HTTPException msg) \<Rightarrow> [] \<noteq> [] \<and> \<not> answered_ok (last [])
                  \<and> msg = ''unexpected response: '' @ str_int (resp_status (snd (last [])))
              | _ \<Rightarrow> list_all answered_ok []"
    by (auto split: sum.splits error.splits)
  with t m show "case m s of (r, s') \<Rightarrow>
       (\<exists>new. trace s' = trace s @ new
          \<and> list_all answered_ok (butlast new)
          \<and> (case r of
                Inl (HTTPException msg) \<Rightarrow>
                  new \<noteq> [] \<and> \<not> answered_ok (last new)
                  \<and> msg = ''unexpected response: '' @ str_int (resp_status (snd (last new)))
              | _ \<Rightarrow> list_all answered_ok new))"
    by (auto intro!: exI [of _ "[]"])
qed

lemma aborts_await:
  assumes m: "aborts_on_bad_status m" and f: "\<And>x. aborts_on_bad_status (f x)"
  shows "aborts_on_bad_status (await m f)"
  unfolding aborts_on_bad_status_def
proof (intro allI)
  fix s
  obtain r s1 where ms: "m s = (r, s1)" by (cases "m s")
  from m [unfolded aborts_on_bad_status_def, rule_format, of s] ms
  obtain new1 where t1: "trace s1 = trace s @ new1"
    and b1: "list_all answered_ok (butlast new1)"
    and r1: "case r of Inl (HTTPException msg) \<Rightarrow>
                  new1 \<noteq> [] \<and> \<not> answered_ok (last new1)
                  \<and> msg = ''unexpected response: '' @ str_int (resp_status (snd (last new1)))
              | _ \<Rightarrow> list_all answered_ok new1"
    by auto
  show "case await m f s of (r, s') \<Rightarrow>
       (\<exists>new. trace s' = trace s @ new
          \<and> list_all answered_ok (butlast new)
          \<and> (case r of
                Inl (HTTPException msg) \<Rightarrow>
                  new \<noteq> [] \<and> \<not> answered_ok (last new)
                  \<and> msg = ''unexpected response: '' @ str_int (resp_status (snd (last new)))
              | _ \<Rightarrow> list_all answered_ok new))"
  proof (cases r)
    case (Inl e)
    then have "await m f s = (Inl e, s1)" using ms by (simp add: await_def)
    with t1 b1 r1 Inl show ?thesis by auto
  next
    case (Inr x)
    with r1 have ok1: "list_all answered_ok new1" by simp
    obtain r2 s2 where fs: "f x s1 = (r2, s2)" by (cases "f x s1")
    from f [of x, unfolded aborts_on_bad_status_def, rule_format, of s1] fs
    obtain new2 where t2: "trace s2 = trace s1 @ new2"
      and b2: "list_all answered_ok (butlast new2)"
      and r2: "case r2 of Inl (HTTPException msg) \<Rightarrow>
                  new2 \<noteq> [] \<and> \<not> answered_ok (last new2)
                  \<and> msg = ''unexpected response: '' @ str_int (resp_status (snd (last new2)))
              | _ \<Rightarrow> list_all answered_ok new2"
      by auto
    have aw: "await m f s = (r2, s2)" using ms Inr fs by (simp add: await_def)
    have t: "trace s2 = trace s @ (new1 @ new2)" using t1 t2 by simp
    have b: "list_all answered_ok (butlast (new1 @ new2))"
      using ok1 b2 by (cases "new2 = []") (auto simp: butlast_append list_all_iff dest: in_set_butlastD)
    have c: "case r2 of Inl (HTTPException msg) \<Rightarrow>
                  new1 @ new2 \<noteq> [] \<and> \<not> answered_ok (last (new1 @ new2))
                  \<and> msg = ''unexpected response: '' @ str_int (resp_status (snd (last (new1 @ new2))))
              | _ \<Rightarrow> list_all answered_ok (new1 @ new2)"
      using r2 ok1 by (auto split: sum.splits error.splits)
    from aw t b c show ?thesis by (auto intro!: exI [of _ "new1 @ new2"])
  qed
qed

lemma exchange_result:
  fixes s :: "'w st"
  assumes "session env rq (world s) = (resp, w')"
  shows "await (send env rq) (\<lambda>resp. compute (check_response resp) (\<lambda>_. compute (k resp) return)) s
    = (if resp_status resp \<ge> 300
       then Inl (HTTPException (''unexpected response: '' @ str_int (resp_status resp)))
       else k resp,
       s\<lparr>world := w', trace := trace s @ [(rq, resp)]\<rparr>)"
  using assms
  by (cases "k resp") (simp_all add: await_def send_def compute_def check_response_def return_def)

lemma aborts_exchange:
  fixes env :: "'w env"
  assumes "\<And>resp. raises_locally (k resp)"
  shows "aborts_on_bad_status (await (send env rq) (\<lambda>resp. compute (check_response resp) (\<lambda>_. compute (k resp) return)))"
  unfolding aborts_on_bad_status_def
proof (intro allI)
  fix s :: "'w st"
  obtain resp w' where ss: "session env rq (world s) = (resp, w')" by (cases "session env rq (world s)")
  have k: "case k resp of Inl (HTTPException msg) \<Rightarrow> False | _ \<Rightarrow> True"
    using assms [of resp] by (auto simp: raises_locally_def split: sum.splits error.splits)
  show "case await (send env rq) (\<lambda>resp. compute (check_response resp) (\<lambda>_. compute (k resp) return)) s of (r, s') \<Rightarrow>
       (\<exists>new. trace s' = trace s @ new
          \<and> list_all answered_ok (butlast new)
          \<and> (case r of
                Inl (HTTPException msg) \<Rightarrow>
                  new \<noteq> [] \<and> \<not> answered_ok (last new)
                  \<and> msg = ''unexpected response: '' @ str_int (resp_status (snd (last new)))
              | _ \<Rightarrow> list_all answered_ok new))"
    unfolding exchange_result [OF ss]
  proof (cases "resp_status resp \<ge> 300")
    case True
    then show "case (if resp_status resp \<ge> 300
       then Inl (HTTPException (''unexpected response: '' @ str_int (resp_status resp)))
       else k resp,
       s\<lparr>world := w', trace := trace s @ [(rq, resp)]\<rparr>) of (r, s') \<Rightarrow>
       (\<exists>new. trace s' = trace s @ new
          \<and> list_all answered_ok (butlast new)
          \<and> (case r of
                Inl (HTTPException msg) \<Rightarrow>
                  new \<noteq> [] \<and> \<not> answered_ok (last new)
                  \<and> msg = ''unexpected response: '' @ str_int (resp_status (snd (last new)))
              | _ \<Rightarrow> list_all answered_ok new))"
      by (simp add: answered_ok_def)
  next
    case False
    with k show "case (if resp_status resp \<ge> 300
       then Inl (HTTPException (''unexpected response: '' @ str_int (resp_status resp)))
       else k resp,
       s\<lparr>world := w', trace := trace s @ [(rq, resp)]\<rparr>) of (r, s') \<Rightarrow>
       (\<exists>new. trace s' = trace s @ new
          \<and> list_all answered_ok (butlast new)
          \<and> (case r of
                Inl (HTTPException msg) \<Rightarrow>
                  new \<noteq> [] \<and> \<not> answered_ok (last new)
                  \<and> msg = ''unexpected response: '' @ str_int (resp_status (snd (last new)))
              | _ \<Rightarrow> list_all answered_ok new))"
      by (simp add: answered_ok_def split: sum.splits error.splits)
  qed
qed

lemma aborts_get [simp]: "aborts_on_bad_status (get env url)"
  unfolding get_def by (rule aborts_exchange) (simp split: option.splits)

lemma aborts_exchange_unit:
  fixes env :: "'w env"
  shows "aborts_on_bad_status (await (send env rq) (\<lambda>resp. compute (check_response resp) return))"
proof -
  have "(\<lambda>resp. compute (check_response resp) (return :: unit \<Rightarrow> (unit, 'w) io))
      = (\<lambda>resp. compute (check_response resp) (\<lambda>_. compute (Inr ()) return))"
    by (simp add: compute_def fun_eq_iff split: sum.splits)
  moreover have "aborts_on_bad_status (await (send env rq)
      (\<lambda>resp. compute (check_response resp) (\<lambda>_. compute (Inr ()) (return :: unit \<Rightarrow> (unit, 'w) io))))"
    by (rule aborts_exchange) simp
  ultimately show ?thesis by simp
qed

lemma aborts_post [simp]: "aborts_on_bad_status (post env url payload)"
  unfolding post_def by (rule aborts_exchange_unit)

lemma aborts_delete [simp]: "aborts_on_bad_status (delete env url)"
  unfolding delete_def by (rule aborts_exchange_unit)

lemma aborts_if:
  "(c \<Longrightarrow> aborts_on_bad_status m) \<Longrightarrow> (\<not> c \<Longrightarrow> aborts_on_bad_status n)
   \<Longrightarrow> aborts_on_bad_status (if c then m else n)"
  by simp

lemma aborts_usernames [simp]: "aborts_on_bad_status (usernames env self)"
  unfolding usernames_def
  by (intro aborts_compute aborts_await raises_locally_andthen) simp_all

lemma aborts_read_attr [simp]: "aborts_on_bad_status read_labels_url_attr"
  by (rule aborts_quiet) (simp add: read_labels_url_attr_def)

lemma aborts_write_attr [simp]: "aborts_on_bad_status (write_labels_url_attr url)"
  by (rule aborts_quiet) (simp add: write_labels_url_attr_def)

lemma aborts_raise [simp]: "local_error e \<Longrightarrow> aborts_on_bad_status (raise e)"
  by (rule aborts_quiet) (simp add: raise_def)

lemma aborts_labels_url [simp]: "aborts_on_bad_status (labels_url env self label)"
  unfolding labels_url_def Let_def
  apply (intro aborts_await aborts_compute raises_locally_andthen)
  apply (simp_all split: option.split json.split)
  apply (intro aborts_await aborts_compute raises_locally_andthen conjI impI allI; simp)+
  done

lemma aborts_current_label [simp]: "aborts_on_bad_status (current_label env self)"
  unfolding current_label_def Let_def
  by (intro aborts_compute aborts_await) simp_all

lemma aborts_set_label [simp]: "aborts_on_bad_status (set_label env self status)"
  unfolding set_label_def
  by (intro aborts_compute aborts_await aborts_if) simp_all

lemma aborts_remove_label [simp]: "aborts_on_bad_status (remove_label env self)"
  unfolding remove_label_def
proof (intro aborts_await)
  fix l
  show "aborts_on_bad_status (case l of
      None \<Rightarrow> return None
    | Some l \<Rightarrow>
        await (labels_url env self (Some l)) (\<lambda>deletion_url.
        await (delete env (JStr deletion_url)) (\<lambda>_.
        return (Some l))))"
    by (cases l) (simp_all add: aborts_await)
qed simp

lemma aborts_comment [simp]: "aborts_on_bad_status (comment env self status)"
  unfolding comment_def Let_def
  by (intro aborts_compute raises_locally_andthen; (cases status)?) (simp_all add: aborts_await)

lemma aborts_update [simp]: "aborts_on_bad_status (update env self status)"
  unfolding update_def
  by (intro aborts_if aborts_await) simp_all

subsection \<open>Runs that return\<close>

text \<open>
  What the state and the exchanges are when an operation returns a value.
\<close>

lemma await_Inr:
  "await m f s = (Inr y, s'') \<longleftrightarrow> (\<exists>x s'. m s = (Inr x, s') \<and> f x s' = (Inr y, s''))"
  by (cases "m s" rule: prod.exhaust; cases "fst (m s)") (auto simp: await_def)

lemma compute_Inr:
  "compute r f s = (Inr y, s') \<longleftrightarrow> (\<exists>x. r = Inr x \<and> f x s = (Inr y, s'))"
  by (cases r) (auto simp: compute_def)

lemma return_eq: "return x s = (r, s') \<longleftrightarrow> r = Inr x \<and> s' = s"
  by (auto simp: return_def)

lemma raise_eq: "raise e s = (r, s') \<longleftrightarrow> r = Inl e \<and> s' = s"
  by (auto simp: raise_def)

lemma andthen_Inr:
  "andthen r f = Inr y \<longleftrightarrow> (\<exists>x. r = Inr x \<and> f x = Inr y)"
  by (cases r) simp_all

lemma run_ok: "fst p = Inr x \<Longrightarrow> p = (Inr x, snd p)"
  by (simp add: prod_eq_iff)

lemma exchange_Inr:
  fixes s :: "'w st"
  assumes "await (send env rq) (\<lambda>resp. compute (check_response resp) (\<lambda>_. compute (k resp) return)) s
             = (Inr v, s')"
  shows "\<exists>resp. trace s' = trace s @ [(rq, resp)] \<and> labels_url_attr s' = labels_url_attr s
           \<and> k resp = Inr v \<and> answered_ok (rq, resp)
           \<and> session env rq (world s) = (resp, world s')"
proof -
  obtain resp w' where ss: "session env rq (world s) = (resp, w')"
    by (cases "session env rq (world s)")
  from assms show ?thesis
    unfolding exchange_result [OF ss]
    by (auto simp: answered_ok_def ss split: if_splits)
qed

lemma get_Inr:
  fixes s :: "'w st"
  assumes "get env url s = (Inr v, s')"
  shows "\<exists>resp. trace s' = trace s @ [(\<lparr>rq_method = GET, rq_url = url, rq_data = None, rq_headers = []\<rparr>, resp)]
           \<and> labels_url_attr s' = labels_url_attr s \<and> resp_json resp = Some v"
proof -
  from exchange_Inr [OF assms [unfolded get_def]]
  show ?thesis by (auto split: option.splits)
qed

lemma unit_exchange:
  "(\<lambda>resp. compute (check_response resp) (return :: unit \<Rightarrow> (unit, 'w) io))
      = (\<lambda>resp. compute (check_response resp) (\<lambda>_. compute (Inr ()) return))"
  by (simp add: compute_def fun_eq_iff split: sum.splits)

lemma post_Inr:
  fixes s :: "'w st"
  assumes "post env url payload s = (Inr v, s')"
  shows "\<exists>resp. trace s' = trace s @ [(\<lparr>rq_method = POST, rq_url = url, rq_data = Some payload,
                      rq_headers = [(''Content-Type'', ''application/json; charset=utf-8'')]\<rparr>, resp)]
           \<and> labels_url_attr s' = labels_url_attr s"
proof -
  from exchange_Inr [OF assms [unfolded post_def unit_exchange]]
  show ?thesis by auto
qed

lemma delete_Inr:
  fixes s :: "'w st"
  assumes "delete env url s = (Inr v, s')"
  shows "\<exists>resp. trace s' = trace s @ [(\<lparr>rq_method = DELETE, rq_url = url, rq_data = None, rq_headers = []\<rparr>, resp)]
           \<and> labels_url_attr s' = labels_url_attr s"
proof -
  from exchange_Inr [OF assms [unfolded delete_def unit_exchange]]
  show ?thesis by auto
qed

lemma only_reads_simps [simp]:
  "only_reads []"
  "only_reads (x # xs) = (rq_method (fst x) = GET \<and> only_reads xs)"
  "only_reads (xs @ ys) = (only_reads xs \<and> only_reads ys)"
  by (auto simp: only_reads_def)

lemma labels_url_Inr:
  fixes s :: "'w st"
  assumes "labels_url env self label s = (Inr u, s')"
  shows "\<exists>t new. labels_url_attr s' = Some (JStr t)
           \<and> format_map env t (case label of None \<Rightarrow> '''' | Some l \<Rightarrow> ''/'' @ quote env l) = Some u
           \<and> trace s' = trace s @ new \<and> only_reads new
           \<and> (labels_url_attr s \<noteq> None \<longrightarrow> s' = s)"
proof (cases "labels_url_attr s")
  case None
  from assms None obtain s1 v where
    g: "compute (andthen (py_getitem (request self) ''pull_request'')
                       (\<lambda>pull_request. py_getitem pull_request ''issue_url'')) (\<lambda>issue_url.
               await (get env issue_url) (\<lambda>issue_data.
               compute (py_getitem issue_data ''labels_url'') (\<lambda>url.
               write_labels_url_attr url))) s = (Inr v, s1)"
    and r: "(case labels_url_attr s1 of
      Some (JStr template) \<Rightarrow>
        compute (case format_map env template (case label of None \<Rightarrow> '''' | Some l \<Rightarrow> ''/'' @ quote env l) of
                None \<Rightarrow> Inl FormatError
              | Some url \<Rightarrow> Inr url) return
    | _ \<Rightarrow> raise AttributeError) s1 = (Inr u, s')"
    unfolding labels_url_def Let_def
    by (auto simp: await_Inr read_labels_url_attr_def)
  from g obtain issue_url issue_data s0 url where
    gg: "get env issue_url s = (Inr issue_data, s0)" and
    w: "write_labels_url_attr url s0 = (Inr v, s1)"
    by (auto simp: compute_Inr await_Inr)
  from get_Inr [OF gg] obtain resp where
    t0: "trace s0 = trace s @ [(\<lparr>rq_method = GET, rq_url = issue_url, rq_data = None, rq_headers = []\<rparr>, resp)]"
    by auto
  from w have t1: "trace s1 = trace s0" by (auto simp: write_labels_url_attr_def)
  from r have "s' = s1 \<and> (\<exists>t. labels_url_attr s1 = Some (JStr t) \<and>
     format_map env t (case label of None \<Rightarrow> '''' | Some l \<Rightarrow> ''/'' @ quote env l) = Some u)"
    by (auto simp: compute_Inr return_eq raise_eq split: option.splits json.splits)
  with t0 t1 None show ?thesis by auto
next
  case (Some a)
  with assms have "s' = s \<and> (\<exists>t. labels_url_attr s = Some (JStr t) \<and>
     format_map env t (case label of None \<Rightarrow> '''' | Some l \<Rightarrow> ''/'' @ quote env l) = Some u)"
    unfolding labels_url_def Let_def
    by (auto simp: await_Inr read_labels_url_attr_def compute_Inr return_eq raise_eq
        split: option.splits json.splits)
  then show ?thesis by (auto intro!: exI [of _ "[]"])
qed

lemma cla_names_set:
  "cla_names items = Inr names \<Longrightarrow> set names = cla_labels_of items"
proof (induction items arbitrary: names)
  case Nil
  then show ?case by (simp add: cla_labels_of_def)
next
  case (Cons item items)
  from Cons.prems obtain x xs where
    g: "py_getitem item ''name'' = Inr (JStr x)" and
    r: "cla_names items = Inr xs" and
    n: "names = (if prefix LABEL_PREFIX x then x # xs else xs)"
    by (auto split: sum.splits json.splits)
  from Cons.IH [OF r] have "set xs = cla_labels_of items" .
  with g n show ?case by (auto simp: cla_labels_of_def)
qed

lemma sort_first:
  fixes xs :: "'a::linorder list"
  assumes "xs \<noteq> []"
  shows "sort xs ! 0 \<in> set xs \<and> (\<forall>x \<in> set xs. sort xs ! 0 \<le> x)"
proof -
  from assms have "sort xs \<noteq> []" by (metis length_0_conv length_sort)
  then obtain y ys where s: "sort xs = y # ys" by (cases "sort xs") auto
  have "sorted (sort xs)" by simp
  then have "sorted (y # ys)" using s by simp
  then have "\<forall>x \<in> set (y # ys). y \<le> x" by auto
  moreover have "set (sort xs) = set xs" by simp
  then have "set (y # ys) = set xs" using s by simp
  ultimately show ?thesis using s by auto
qed

lemma mutations_append:
  "trace s' = trace s @ new \<Longrightarrow> mutations s s' = filter (\<lambda>rq. rq_method rq \<noteq> GET) (map fst new)"
  by (simp add: mutations_def made_def)

lemma made_append: "trace s' = trace s @ new \<Longrightarrow> made s s' = new"
  by (simp add: made_def)

lemma only_reads_filter:
  "only_reads new \<Longrightarrow> filter (\<lambda>rq. rq_method rq \<noteq> GET) (map fst new) = []"
  by (induction new) auto

lemma current_label_Inr:
  fixes s :: "'w st"
  assumes "current_label env self s = (Inr cur, s')"
  shows "\<exists>t u new resp doc items.
           labels_url_attr s' = Some (JStr t) \<and> format_map env t '''' = Some u
           \<and> trace s' = trace s @ new @ [(list_call u, resp)] \<and> only_reads new
           \<and> resp_json resp = Some doc \<and> py_iter doc = Inr items
           \<and> first_of (cla_labels_of items) cur"
proof -
  from assms obtain u s1 doc items names where
    l: "labels_url env self None s = (Inr u, s1)" and
    g: "get env (JStr u) s1 = (Inr doc, s')" and
    i: "py_iter doc = Inr items" and
    n: "cla_names items = Inr names" and
    c: "cur = (if length (sort names) > 0 then Some (sort names ! 0) else None)"
    unfolding current_label_def Let_def
    by (auto simp: await_Inr compute_Inr return_eq)
  from labels_url_Inr [OF l] obtain t new where
    a: "labels_url_attr s1 = Some (JStr t)" and f: "format_map env t '''' = Some u" and
    t1: "trace s1 = trace s @ new" and r: "only_reads new"
    by auto
  from get_Inr [OF g] obtain resp where
    t2: "trace s' = trace s1 @ [(list_call u, resp)]" and
    a2: "labels_url_attr s' = labels_url_attr s1" and j: "resp_json resp = Some doc"
    by (auto simp: list_call_def)
  have "first_of (cla_labels_of items) cur"
  proof (cases "names = []")
    case True
    with c cla_names_set [OF n] show ?thesis by (simp add: first_of_def)
  next
    case False
    with c have "cur = Some (sort names ! 0)" by simp
    with sort_first [OF False] cla_names_set [OF n] show ?thesis by (simp add: first_of_def)
  qed
  with a f t1 t2 a2 r j i show ?thesis by auto
qed

lemma current_label_reads:
  fixes s :: "'w st"
  assumes "current_label env self s = (Inr cur, s')"
  shows "\<exists>new. trace s' = trace s @ new \<and> only_reads new"
proof -
  from current_label_Inr [OF assms] obtain new u resp where
    "trace s' = trace s @ new @ [(list_call u, resp)]" "only_reads new" by auto
  then have "trace s' = trace s @ (new @ [(list_call u, resp)]) \<and> only_reads (new @ [(list_call u, resp)])"
    by (simp add: list_call_def)
  then show ?thesis by blast
qed

lemma remove_label_Inr:
  fixes s :: "'w st"
  assumes "remove_label env self s = (Inr removed, s')"
  shows "\<exists>t u new resp doc items.
           labels_url_attr s' = Some (JStr t) \<and> format_map env t '''' = Some u
           \<and> (list_call u, resp) \<in> set (made s s')
           \<and> resp_json resp = Some doc \<and> py_iter doc = Inr items
           \<and> first_of (cla_labels_of items) removed
           \<and> (case removed of
                 None \<Rightarrow> mutations s s' = []
               | Some l \<Rightarrow> (\<exists>d. format_map env t (''/'' @ quote env l) = Some d
                              \<and> mutations s s' = [delete_call d]))"
proof -
  from assms obtain cur s1 where
    c0: "current_label env self s = (Inr cur, s1)" and
    k0: "(case cur of
      None \<Rightarrow> return None
    | Some l \<Rightarrow>
        await (labels_url env self (Some l)) (\<lambda>deletion_url.
        await (delete env (JStr deletion_url)) (\<lambda>_.
        return (Some l)))) s1 = (Inr removed, s')"
    unfolding remove_label_def by (auto simp: await_Inr)
  from k0 have "cur = removed"
    by (cases cur) (auto simp: await_Inr return_eq)
  with c0 k0 have
    c: "current_label env self s = (Inr removed, s1)" and
    k: "(case removed of
      None \<Rightarrow> return None
    | Some l \<Rightarrow>
        await (labels_url env self (Some l)) (\<lambda>deletion_url.
        await (delete env (JStr deletion_url)) (\<lambda>_.
        return (Some l)))) s1 = (Inr removed, s')"
    by simp_all
  from current_label_Inr [OF c] obtain t u new resp doc items where
    a: "labels_url_attr s1 = Some (JStr t)" and f: "format_map env t '''' = Some u" and
    t1: "trace s1 = trace s @ new @ [(list_call u, resp)]" and r: "only_reads new" and
    j: "resp_json resp = Some doc" and i: "py_iter doc = Inr items" and
    fo: "first_of (cla_labels_of items) removed"
    by blast
  show ?thesis
  proof (cases removed)
    case None
    with k have e: "s' = s1" by (simp add: return_eq)
    have t: "trace s' = trace s @ (new @ [(list_call u, resp)])"
      using t1 e by simp
    have m: "mutations s s' = []"
      unfolding mutations_append [OF t] using r
      by (simp add: only_reads_filter list_call_def)
    have "(list_call u, resp) \<in> set (made s s')"
      unfolding made_append [OF t] by simp
    with a f j i fo None m e show ?thesis by auto
  next
    case (Some l)
    with k obtain d s2 where
      l: "labels_url env self (Some l) s1 = (Inr d, s2)" and
      dl: "delete env (JStr d) s2 = (Inr (), s')"
      by (auto simp: await_Inr return_eq)
    from labels_url_Inr [OF l] a have s2: "s2 = s1" and
      fd: "format_map env t (''/'' @ quote env l) = Some d" by auto
    from delete_Inr [OF dl] obtain resp' where
      t2: "trace s' = trace s2 @ [(delete_call d, resp')]" and
      a2: "labels_url_attr s' = labels_url_attr s2"
      by (auto simp: delete_call_def)
    have t: "trace s' = trace s @ (new @ [(list_call u, resp), (delete_call d, resp')])"
      using t1 t2 s2 by simp
    have m: "mutations s s' = [delete_call d]"
      unfolding mutations_append [OF t] using r
      by (simp add: only_reads_filter list_call_def delete_call_def)
    from a a2 s2 f j i fo fd m Some show ?thesis
      by (auto simp: made_append [OF t])
  qed
qed

subsection \<open>The classifier\<close>

lemma andthen_neq:
  "(\<And>e. r = Inl e \<Longrightarrow> e \<noteq> X) \<Longrightarrow> (\<And>x. r = Inr x \<Longrightarrow> f x \<noteq> Inl X) \<Longrightarrow> andthen r f \<noteq> Inl X"
  by (cases r) auto

lemma if_neq: "(c \<Longrightarrow> a \<noteq> X) \<Longrightarrow> (\<not> c \<Longrightarrow> b \<noteq> X) \<Longrightarrow> (if c then a else b) \<noteq> X"
  by simp

lemma py_in_Inl: "py_in x S = Inl e \<Longrightarrow> e = TypeError"
  by (cases "py_key x") (auto simp: py_in_def dest: py_key_Inl)

lemma py_startswith_Inl: "py_startswith x p = Inl e \<Longrightarrow> e = AttributeError"
  by (cases x) auto

lemma process_json_no_415:
  assumes "content_type req = ''application/json''"
  shows "process req \<noteq> Inl (ResponseExit UNSUPPORTED_MEDIA_TYPE text)"
proof (cases "request_json req")
  case None
  with assms show ?thesis by (simp add: process_def)
next
  case (Some payload)
  have ne: "ResponseExit NO_CONTENT None \<noteq> ResponseExit UNSUPPORTED_MEDIA_TYPE text"
    by (simp add: NO_CONTENT_def UNSUPPORTED_MEDIA_TYPE_def)
  show ?thesis
    unfolding process_def using assms Some ne
    apply (simp del: event_value.simps)
    apply (intro andthen_neq if_neq)
    apply (auto simp del: event_value.simps dest: py_getitem_Inl py_contains_Inl py_in_Inl py_startswith_Inl)
    done
qed

text \<open>
  Claim C6. A request whose content type is not exactly \<^verbatim>\<open>application/json\<close> is refused
  with \<open>ResponseExit\<close> 415 (UNSUPPORTED_MEDIA_TYPE), the text naming the type received; a
  request with that content type is never refused with 415. \<open>process\<close> takes the request
  alone and has no access to the session: it makes no outbound call, and a refusal builds
  no \<open>host\<close>.
\<close>

theorem process_media_type:
  "(content_type req \<noteq> ''application/json'' \<longrightarrow>
      process req = Inl (ResponseExit UNSUPPORTED_MEDIA_TYPE
        (Some (''can only accept application/json, not '' @ content_type req))))
   \<and> (content_type req = ''application/json'' \<longrightarrow>
      (\<forall>text. process req \<noteq> Inl (ResponseExit UNSUPPORTED_MEDIA_TYPE text)))"
  using process_json_no_415 [of req] by (simp add: process_def)

theorem process_media_type_witness:
  "process \<lparr>content_type = ''text/plain'', request_json = Some (pull_request_event ''opened'')\<rparr>
     = Inl (ResponseExit 415 (Some ''can only accept application/json, not text/plain''))
   \<and> process \<lparr>content_type = ''application/json'', request_json = Some (pull_request_event ''opened'')\<rparr>
     \<noteq> Inl (ResponseExit 415 None)"
  using process_media_type [of "\<lparr>content_type = ''text/plain'', request_json = Some (pull_request_event ''opened'')\<rparr>"]
    process_media_type [of "\<lparr>content_type = ''application/json'', request_json = Some (pull_request_event ''opened'')\<rparr>"]
  by (simp add: UNSUPPORTED_MEDIA_TYPE_def)

text \<open>
  Claim C5, as stated, fails. A JSON payload without a \<^verbatim>\<open>zen\<close> key and without an
  \<^verbatim>\<open>action\<close> field (a \<^verbatim>\<open>push\<close> event, say) is neither answered with 204 nor turned into a
  contribution: the lookup \<^verbatim>\<open>payload['action']\<close> raises \<open>KeyError\<close>.
\<close>

theorem process_without_action:
  "process \<lparr>content_type = ''application/json'',
            request_json = Some (JObj [(''ref'', JStr ''refs/heads/main'')])\<rparr> = Inl KeyError"
  by (simp add: process_def)

lemma py_in_useful:
  "(\<forall>xs. a \<noteq> JArr xs) \<Longrightarrow> (\<forall>m. a \<noteq> JObj m) \<Longrightarrow>
   py_in a useful_actions = Inr (a = JStr ''opened'' \<or> a = JStr ''unlabeled'' \<or> a = JStr ''synchronize'')"
  by (cases a) (auto simp: py_in_def useful_actions_def)

text \<open>
  Claim C5, amended. For a JSON object that has a \<^verbatim>\<open>zen\<close> key, or else an \<^verbatim>\<open>action\<close>
  field that is neither a list nor an object and, when the action is \<^verbatim>\<open>unlabeled\<close>, a
  \<^verbatim>\<open>label\<close> object with a string \<^verbatim>\<open>name\<close>: \<open>process\<close> answers 204 (NO_CONTENT) exactly
  when the \<^verbatim>\<open>zen\<close> key is present, or the action is none of \<^verbatim>\<open>opened\<close>,
  \<^verbatim>\<open>unlabeled\<close>, \<^verbatim>\<open>synchronize\<close>, or the action is \<^verbatim>\<open>unlabeled\<close> and the name of the
  label does not start with the prefix; in every other case it returns the contribution
  with the event of that action and the payload.
\<close>

theorem process_classifies:
  assumes ct: "content_type req = ''application/json''"
    and pl: "request_json req = Some (JObj kvs)"
    and act: "''zen'' \<notin> fst ` set kvs \<Longrightarrow>
                \<exists>a. map_of kvs ''action'' = Some a \<and> (\<forall>xs. a \<noteq> JArr xs) \<and> (\<forall>m. a \<noteq> JObj m)"
    and lbl: "''zen'' \<notin> fst ` set kvs \<Longrightarrow> map_of kvs ''action'' = Some (JStr ''unlabeled'') \<Longrightarrow>
                \<exists>l n. map_of kvs ''label'' = Some (JObj l) \<and> map_of l ''name'' = Some (JStr n)"
  shows "((process req = Inl (ResponseExit NO_CONTENT None)) =
           (''zen'' \<in> fst ` set kvs
            \<or> (\<forall>ev \<in> {opened, unlabeled, synchronize}.
                  map_of kvs ''action'' \<noteq> Some (JStr (event_value ev)))
            \<or> (map_of kvs ''action'' = Some (JStr ''unlabeled'')
                \<and> (\<forall>l n. map_of kvs ''label'' = Some (JObj l) \<and> map_of l ''name'' = Some (JStr n)
                       \<longrightarrow> \<not> prefix LABEL_PREFIX n))))
       \<and> (process req \<noteq> Inl (ResponseExit NO_CONTENT None) \<longrightarrow>
           (\<exists>ev \<in> {opened, unlabeled, synchronize}.
              map_of kvs ''action'' = Some (JStr (event_value ev))
              \<and> process req = Inr \<lparr>event = ev, request = JObj kvs\<rparr>))"
proof (cases "''zen'' \<in> fst ` set kvs")
  case True
  with ct pl have "process req = Inl (ResponseExit NO_CONTENT None)"
    by (simp add: process_def)
  with True show ?thesis by simp
next
  case False
  from act [OF False] obtain a where
    a: "map_of kvs ''action'' = Some a" and h: "\<forall>xs. a \<noteq> JArr xs" "\<forall>m. a \<noteq> JObj m"
    by blast
  note u = py_in_useful [OF h]
  consider (op) "a = JStr ''opened''" | (un) "a = JStr ''unlabeled''"
    | (sy) "a = JStr ''synchronize''"
    | (other) "a \<noteq> JStr ''opened''" "a \<noteq> JStr ''unlabeled''" "a \<noteq> JStr ''synchronize''"
    by blast
  then show ?thesis
  proof cases
    case op
    with ct pl False a u have "process req = Inr \<lparr>event = opened, request = JObj kvs\<rparr>"
      by (simp add: process_def)
    with False a op show ?thesis by simp
  next
    case sy
    with ct pl False a u have "process req = Inr \<lparr>event = synchronize, request = JObj kvs\<rparr>"
      by (simp add: process_def)
    with False a sy show ?thesis by simp
  next
    case other
    with ct pl False a u have "process req = Inl (ResponseExit NO_CONTENT None)"
      by (simp add: process_def)
    with False a other show ?thesis by simp
  next
    case un
    from lbl [OF False] a un obtain l n where
      l: "map_of kvs ''label'' = Some (JObj l)" and n: "map_of l ''name'' = Some (JStr n)"
      by blast
    from ct pl False a u un l n have
      "process req = (if prefix LABEL_PREFIX n then Inr \<lparr>event = unlabeled, request = JObj kvs\<rparr>
                      else Inl (ResponseExit NO_CONTENT None))"
      by (simp add: process_def)
    with False a un l n show ?thesis by simp
  qed
qed

theorem process_classifies_witness:
  "process \<lparr>content_type = ''application/json'', request_json = Some (pull_request_event ''opened'')\<rparr>
     = Inr (contribution opened)"
proof -
  let ?kvs = "[(''action'', JStr ''opened''),
          (''pull_request'',
           JObj [(''user'', JObj [(''login'', JStr ''alice'')]),
                 (''commits_url'', JStr commits_url0),
                 (''issue_url'', JStr issue_url0),
                 (''comments_url'', JStr comments_url0)])]"
  let ?req = "\<lparr>content_type = ''application/json'', request_json = Some (JObj ?kvs)\<rparr>"
  have "process ?req \<noteq> Inl (ResponseExit NO_CONTENT None) \<longrightarrow>
           (\<exists>ev \<in> {opened, unlabeled, synchronize}.
              map_of ?kvs ''action'' = Some (JStr (event_value ev))
              \<and> process ?req = Inr \<lparr>event = ev, request = JObj ?kvs\<rparr>)"
    and "(process ?req = Inl (ResponseExit NO_CONTENT None)) =
           (''zen'' \<in> fst ` set ?kvs
            \<or> (\<forall>ev \<in> {opened, unlabeled, synchronize}.
                  map_of ?kvs ''action'' \<noteq> Some (JStr (event_value ev)))
            \<or> (map_of ?kvs ''action'' = Some (JStr ''unlabeled'')
                \<and> (\<forall>l n. map_of ?kvs ''label'' = Some (JObj l) \<and> map_of l ''name'' = Some (JStr n)
                       \<longrightarrow> \<not> prefix LABEL_PREFIX n)))"
    using process_classifies [of ?req ?kvs] by simp_all
  then show ?thesis
    by (auto simp: contribution_def pull_request_event_def pull_request_payload_def)
qed

subsection \<open>Transport errors\<close>

text \<open>
  Claim C9. Every outbound call goes through \<open>check_response\<close>. For \<open>get\<close>, \<open>post\<close> and
  \<open>delete\<close>, and for the whole of \<open>usernames\<close> and \<open>update\<close> built on them: every exchange
  of a run but the last was answered with a status below 300; when the last exchange was
  answered with 300 or more the run raises \<open>HTTPException\<close> with the message
  \<^verbatim>\<open>unexpected response: \<close> followed by that status, so nothing is sent after such an answer
  and the request is not repeated; and a run whose exchanges were all answered below 300
  does not raise \<open>HTTPException\<close>.
\<close>

theorem bad_status_aborts:
  "aborts_on_bad_status (get env url)
   \<and> aborts_on_bad_status (post env url payload)
   \<and> aborts_on_bad_status (delete env url)
   \<and> aborts_on_bad_status (usernames env self)
   \<and> aborts_on_bad_status (update env self status)"
proof (intro conjI)
  show "aborts_on_bad_status (get env url)" by (rule aborts_get)
  show "aborts_on_bad_status (post env url payload)" by (rule aborts_post)
  show "aborts_on_bad_status (delete env url)" by (rule aborts_delete)
  show "aborts_on_bad_status (usernames env self)" by (rule aborts_usernames)
  show "aborts_on_bad_status (update env self status)" by (rule aborts_update)
qed

theorem bad_status_aborts_witness:
  "fst (update github_env stale_contribution not_signed (start (pull_request0 []))) =
     Inl (HTTPException ''unexpected response: 404'')
   \<and> map (\<lambda>x. (rq_method (fst x), resp_status (snd x)))
        (trace (snd (update github_env stale_contribution not_signed (start (pull_request0 [])))))
      = [(GET, 200), (POST, 200), (POST, 404)]"
proof -
  have a: "fst (update github_env stale_contribution not_signed (start (pull_request0 []))) =
     Inl (HTTPException ''unexpected response: 404'')"
    by code_simp
  have b: "map (\<lambda>x. (rq_method (fst x), resp_status (snd x)))
        (trace (snd (update github_env stale_contribution not_signed (start (pull_request0 [])))))
      = [(GET, 200), (POST, 200), (POST, 404)]"
    by code_simp
  from bad_status_aborts [of github_env JNull JNull stale_contribution not_signed] a b
  show ?thesis by simp
qed

subsection \<open>Removing the label\<close>



subsection \<open>The reconciler\<close>

lemma set_label_Inr:
  fixes s :: "'w st"
  assumes "set_label env self status s = (Inr l, s')"
  shows "\<exists>t u. labels_url_attr s' = Some (JStr t) \<and> format_map env t '''' = Some u
           \<and> l = target_label status
           \<and> mutations s s' = [set_label_call u (target_label status)]"
proof -
  from assms obtain u s1 where
    l: "labels_url env self None s = (Inr u, s1)" and
    p: "post env (JStr u) (JArr [JStr (target_label status)]) s1 = (Inr (), s')" and
    e: "l = target_label status"
    unfolding set_label_def target_label_def
    by (auto simp: await_Inr return_eq split: if_splits)
  from labels_url_Inr [OF l] obtain t new where
    a: "labels_url_attr s1 = Some (JStr t)" and f: "format_map env t '''' = Some u" and
    t1: "trace s1 = trace s @ new" and r: "only_reads new"
    by auto
  from post_Inr [OF p] obtain resp where
    t2: "trace s' = trace s1 @ [(set_label_call u (target_label status), resp)]" and
    a2: "labels_url_attr s' = labels_url_attr s1"
    by (auto simp: set_label_call_def)
  have t: "trace s' = trace s @ (new @ [(set_label_call u (target_label status), resp)])"
    using t1 t2 by simp
  have "mutations s s' = [set_label_call u (target_label status)]"
    unfolding mutations_append [OF t] using r
    by (simp add: only_reads_filter set_label_call_def)
  with a a2 f e show ?thesis by simp
qed

lemma comment_Inr:
  fixes s :: "'w st"
  assumes "comment env self status s = (Inr m, s')"
  shows "mutations s s' = comment_calls self status
         \<and> labels_url_attr s' = labels_url_attr s
         \<and> (\<exists>new. trace s' = trace s @ new)
         \<and> (status \<noteq> signed \<longrightarrow> length (comment_calls self status) = 1)"
proof -
  from assms obtain url where
    u: "pr_field self ''comments_url'' = Inr url" and
    k: "(case status of
      signed \<Rightarrow> return None
    | not_signed \<Rightarrow>
        (let message = NO_CLA_TEMPLATE NO_CLA_BODY in
         await (post env url (JObj [(''body'', JStr message)])) (\<lambda>_.
         return (Some message)))
    | username_not_found \<Rightarrow>
        (let message = NO_CLA_TEMPLATE NO_USERNAME_BODY in
         await (post env url (JObj [(''body'', JStr message)])) (\<lambda>_.
         return (Some message)))) s = (Inr m, s')"
    unfolding comment_def pr_field_def by (auto simp: compute_Inr)
  show ?thesis
  proof (cases status)
    case signed
    with k have "s' = s" by (simp add: return_eq)
    with signed u show ?thesis
      by (simp add: comment_calls_def mutations_def made_def)
  next
    case not_signed
    with k obtain s1 where
      p: "post env url (JObj [(''body'', JStr (NO_CLA_TEMPLATE NO_CLA_BODY))]) s = (Inr (), s1)"
      and e: "s' = s1"
      by (auto simp: await_Inr return_eq Let_def)
    from post_Inr [OF p] e obtain resp where
      t: "trace s' = trace s @ [(comment_call url (NO_CLA_TEMPLATE NO_CLA_BODY), resp)]" and
      a: "labels_url_attr s' = labels_url_attr s"
      by (auto simp: comment_call_def)
    have "mutations s s' = [comment_call url (NO_CLA_TEMPLATE NO_CLA_BODY)]"
      unfolding mutations_append [OF t] by (simp add: comment_call_def)
    with not_signed u a t show ?thesis by (simp add: comment_calls_def)
  next
    case username_not_found
    with k obtain s1 where
      p: "post env url (JObj [(''body'', JStr (NO_CLA_TEMPLATE NO_USERNAME_BODY))]) s = (Inr (), s1)"
      and e: "s' = s1"
      by (auto simp: await_Inr return_eq Let_def)
    from post_Inr [OF p] e obtain resp where
      t: "trace s' = trace s @ [(comment_call url (NO_CLA_TEMPLATE NO_USERNAME_BODY), resp)]" and
      a: "labels_url_attr s' = labels_url_attr s"
      by (auto simp: comment_call_def)
    have "mutations s s' = [comment_call url (NO_CLA_TEMPLATE NO_USERNAME_BODY)]"
      unfolding mutations_append [OF t] by (simp add: comment_call_def)
    with username_not_found u a t show ?thesis by (simp add: comment_calls_def)
  qed
qed

lemma trace_extends:
  fixes s :: "'w st"
  assumes "aborts_on_bad_status m" and "m s = (r, s')"
  shows "\<exists>new. trace s' = trace s @ new"
proof -
  from assms(1) [unfolded aborts_on_bad_status_def, rule_format, of s] assms(2)
  show ?thesis by auto
qed

lemma mutations_trans:
  assumes "trace s1 = trace s @ new1" and "trace s2 = trace s1 @ new2"
  shows "mutations s s2 = mutations s s1 @ mutations s1 s2"
  using assms by (simp add: mutations_def made_def)

lemma comment_calls_unsigned:
  "status \<noteq> signed \<Longrightarrow> length (comment_calls self status) = 1 \<Longrightarrow>
   \<exists>url. pr_field self ''comments_url'' = Inr url
     \<and> comment_calls self status = [comment_call url (NO_CLA_TEMPLATE (failure_body status))]"
  by (cases status; cases "pr_field self ''comments_url''")
     (simp_all add: comment_calls_def failure_body_def)

lemma mutations_same [simp]: "mutations s s = []"
  by (simp add: mutations_def made_def)

lemma current_label_quiet:
  fixes s :: "'w st"
  assumes "current_label env self s = (Inr cur, s')"
  shows "mutations s s' = []"
proof -
  from current_label_reads [OF assms] obtain new where
    t: "trace s' = trace s @ new" and r: "only_reads new" by auto
  show ?thesis unfolding mutations_append [OF t] using r by (rule only_reads_filter)
qed

lemma remove_label_calls:
  fixes s :: "'w st"
  assumes "remove_label env self s = (Inr removed, s')"
  shows "case removed of
           None \<Rightarrow> mutations s s' = []
         | Some l \<Rightarrow> (\<exists>t d. labels_url_attr s' = Some (JStr t)
                          \<and> format_map env t (''/'' @ quote env l) = Some d
                          \<and> mutations s s' = [delete_call d])"
  using remove_label_Inr [OF assms] by (cases removed) auto





subsection \<open>The contributors\<close>

lemma set_add_Inr: "set_add v S = Inr S' \<longleftrightarrow> (\<exists>k. py_key v = Inr k \<and> S' = insert k S)"
  by (cases "py_key v") (auto simp: set_add_def)

lemma add_commit_Inr:
  assumes "add_commit commit S = Inr S'"
  shows "S' = S \<union> commit_logins [commit]"
proof -
  from assms obtain a la ka c lc kc where
    "py_getitem commit ''author'' = Inr a" "py_getitem a ''login'' = Inr la" "py_key la = Inr ka"
    "py_getitem commit ''committer'' = Inr c" "py_getitem c ''login'' = Inr lc" "py_key lc = Inr kc"
    "S' = insert kc (insert ka S)"
    unfolding add_commit_def by (auto simp: andthen_Inr set_add_Inr)
  then show ?thesis by (auto simp: commit_logins_def)
qed

lemma commit_logins_Cons:
  "commit_logins (c # cs) = commit_logins [c] \<union> commit_logins cs"
  by (auto simp: commit_logins_def)

lemma add_commits_Inr:
  "add_commits commits S = Inr S' \<Longrightarrow> S' = S \<union> commit_logins commits"
proof (induction commits arbitrary: S)
  case Nil
  then show ?case by (simp add: commit_logins_def)
next
  case (Cons c cs)
  from Cons.prems obtain S1 where
    1: "add_commit c S = Inr S1" and 2: "add_commits cs S1 = Inr S'"
    by (auto split: sum.splits)
  from add_commit_Inr [OF 1] Cons.IH [OF 2] show ?case
    by (subst commit_logins_Cons) auto
qed

lemma add_commits_finite:
  "add_commits commits S = Inr S' \<Longrightarrow> finite S \<Longrightarrow> finite S'"
proof (induction commits arbitrary: S)
  case Nil
  then show ?case by simp
next
  case (Cons c cs)
  from Cons.prems obtain S1 where
    1: "add_commit c S = Inr S1" and 2: "add_commits cs S1 = Inr S'"
    by (auto split: sum.splits)
  from 1 obtain ka kc where "S1 = insert kc (insert ka S)"
    unfolding add_commit_def by (auto simp: andthen_Inr set_add_Inr)
  with Cons.prems(2) have "finite S1" by simp
  from Cons.IH [OF 2 this] show ?case .
qed

lemma usernames_Inr:
  fixes s :: "'w st"
  assumes "usernames env self s = (Inr logins, s')"
  shows "\<exists>user login k url resp doc commits.
           pr_field self ''user'' = Inr user \<and> py_getitem user ''login'' = Inr login
           \<and> py_key login = Inr k
           \<and> pr_field self ''commits_url'' = Inr url
           \<and> made s s' = [(fetch_call url, resp)]
           \<and> resp_json resp = Some doc \<and> py_iter doc = Inr commits
           \<and> logins = insert k (commit_logins commits) \<and> finite logins"
proof -
  from assms obtain pr user login k url doc commits where
    p: "py_getitem (request self) ''pull_request'' = Inr pr" and
    u: "py_getitem pr ''user'' = Inr user" and
    l: "py_getitem user ''login'' = Inr login" and
    k: "py_key login = Inr k" and
    c: "py_getitem pr ''commits_url'' = Inr url" and
    g: "get env url s = (Inr doc, s')" and
    i: "py_iter doc = Inr commits" and
    a: "add_commits commits {k} = Inr logins"
    unfolding usernames_def
    by (auto simp: compute_Inr await_Inr andthen_Inr set_add_Inr return_eq)
  from get_Inr [OF g] obtain resp where
    t: "trace s' = trace s @ [(fetch_call url, resp)]" and j: "resp_json resp = Some doc"
    by (auto simp: fetch_call_def)
  from add_commits_Inr [OF a] have e: "logins = insert k (commit_logins commits)" by auto
  from add_commits_finite [OF a] have f: "finite logins" by simp
  from p u l k c i j e f made_append [OF t] show ?thesis
    by (auto simp: pr_field_def)
qed

text \<open>
  Claim C7. A run of \<open>usernames\<close> that returns has made one request, the \<open>GET\<close> of
  \<^verbatim>\<open>commits_url\<close>, and returns exactly the set of the login of the author of the pull
  request and of the author login and committer login of every commit of the answer. The
  result is a set: a login met twice is one element.
\<close>

theorem usernames_exact:
  fixes s :: "'w st"
  assumes "usernames env self s = (Inr logins, s')"
  shows "\<exists>user login k url resp doc commits.
           pr_field self ''user'' = Inr user \<and> py_getitem user ''login'' = Inr login
           \<and> py_key login = Inr k
           \<and> pr_field self ''commits_url'' = Inr url
           \<and> made s s' = [(fetch_call url, resp)]
           \<and> resp_json resp = Some doc \<and> py_iter doc = Inr commits
           \<and> logins = {k} \<union> commit_logins commits"
  using usernames_Inr [OF assms] by auto

theorem usernames_exact_witness:
  "fst (usernames github_env (contribution opened) (start (pull_request0 [])))
     = Inr {JStr ''alice'', JStr ''bob'', JStr ''web-flow''}"
proof -
  let ?s = "start (pull_request0 [])"
  let ?run = "usernames github_env (contribution opened) ?s"
  have r: "fst ?run = Inr {JStr ''alice'', JStr ''bob'', JStr ''web-flow''}"
    by code_simp
  from usernames_exact [OF run_ok [OF r]]
  have "\<exists>user. pr_field (contribution opened) ''user'' = Inr user" by blast
  with r show ?thesis by simp
qed

text \<open>
  Claim C10. The set \<open>usernames\<close> returns holds the login of the author of the pull request
  and so is not empty; when the commit list fetched is empty it holds nothing else. The
  result is a finite set value, built after the loop, which no later step changes.
\<close>

theorem usernames_author:
  fixes s :: "'w st"
  assumes "usernames env self s = (Inr logins, s')"
  shows "\<exists>user login k.
           pr_field self ''user'' = Inr user \<and> py_getitem user ''login'' = Inr login
           \<and> py_key login = Inr k
           \<and> k \<in> logins \<and> logins \<noteq> {} \<and> finite logins
           \<and> (\<forall>x \<in> set (made s s'). resp_json (snd x) = Some (JArr []) \<longrightarrow> logins = {k})"
proof -
  from usernames_Inr [OF assms] obtain user login k url resp doc commits where
    h: "pr_field self ''user'' = Inr user" "py_getitem user ''login'' = Inr login"
       "py_key login = Inr k" "made s s' = [(fetch_call url, resp)]"
       "resp_json resp = Some doc" "py_iter doc = Inr commits"
       "logins = insert k (commit_logins commits)" "finite logins"
    by blast
  have "logins = {k}" if "resp_json resp = Some (JArr [])"
  proof -
    from that h have "commits = []" by auto
    with h show ?thesis by (simp add: commit_logins_def)
  qed
  with h show ?thesis by auto
qed

theorem usernames_author_witness:
  "fst (usernames github_env (contribution opened)
         (start \<lparr>gh_labels = [], gh_comments = [], gh_commits = JArr []\<rparr>))
     = Inr {JStr ''alice''}"
proof -
  let ?s = "start \<lparr>gh_labels = [], gh_comments = [], gh_commits = JArr []\<rparr>"
  let ?run = "usernames github_env (contribution opened) ?s"
  have r: "fst ?run = Inr {JStr ''alice''}"
    by code_simp
  from usernames_author [OF run_ok [OF r]]
  have "\<exists>user. pr_field (contribution opened) ''user'' = Inr user" by blast
  with r show ?thesis by simp
qed

subsection \<open>The aggregator\<close>

lemma highest_cases:
  "highest a b = (if a = username_not_found \<or> b = username_not_found then username_not_found
                  else if a = not_signed \<or> b = not_signed then not_signed else signed)"
  by (cases a; cases b) (simp_all add: highest_def)

text \<open>
  Claim C4. The reduction of the verdicts yields \<open>username_not_found\<close> if any username
  resolves to it, otherwise \<open>not_signed\<close> if any username resolves to that, otherwise
  \<open>signed\<close>; the result depends on the set of usernames only, not on their order or
  multiplicity. When every lookup returns \<open>signed\<close> the aggregate is \<open>signed\<close>.
\<close>

theorem aggregate_precedence:
  "aggregate lookup names =
     (if \<exists>n \<in> set names. lookup n = username_not_found then username_not_found
      else if \<exists>n \<in> set names. lookup n = not_signed then not_signed
      else signed)
   \<and> ((\<forall>n \<in> set names. lookup n = signed) \<longrightarrow> aggregate lookup names = signed)
   \<and> (set names' = set names \<longrightarrow> aggregate lookup names' = aggregate lookup names)"
proof -
  have "foldr highest (map lookup ns) signed =
     (if \<exists>n \<in> set ns. lookup n = username_not_found then username_not_found
      else if \<exists>n \<in> set ns. lookup n = not_signed then not_signed
      else signed)" for ns
    by (induction ns) (auto simp: highest_cases)
  then have "aggregate lookup ns =
     (if \<exists>n \<in> set ns. lookup n = username_not_found then username_not_found
      else if \<exists>n \<in> set ns. lookup n = not_signed then not_signed
      else signed)" for ns
    by (simp add: aggregate_def)
  then show ?thesis by auto
qed

theorem aggregate_precedence_witness:
  "aggregate (\<lambda>n. if n = ''a'' then signed else if n = ''b'' then username_not_found else not_signed)
     [''a'', ''b'', ''c''] = username_not_found
   \<and> aggregate (\<lambda>n. if n = ''a'' then signed else if n = ''b'' then username_not_found else not_signed)
     [''c'', ''a'', ''b'', ''a''] = username_not_found
   \<and> aggregate (\<lambda>n. signed) [''a'', ''b'', ''c''] = signed"
  using aggregate_precedence [of "\<lambda>n. if n = ''a'' then signed else if n = ''b'' then username_not_found else not_signed"
      "[''a'', ''b'', ''c'']" "[''c'', ''a'', ''b'', ''a'']"]
    aggregate_precedence [of "\<lambda>n. signed" "[''a'', ''b'', ''c'']" "[]"]
  by auto

subsection \<open>Two runs against the reference remote side\<close>

text \<open>
  The operations evaluated on the reference remote side, from any state whose cached
  labels URL is absent or the one served.
\<close>

lemma gh_expand: "expand_name labels_template v = Some (labels_base @ v)"
  by (simp add: labels_template_def labels_base_def issue_url0_def)

lemma gh_urls [simp]:
  "issue_url0 \<noteq> labels_base" "labels_base \<noteq> issue_url0"
  "issue_url0 \<noteq> comments_url0" "comments_url0 \<noteq> issue_url0"
  "labels_base \<noteq> comments_url0" "comments_url0 \<noteq> labels_base"
  "commits_url0 \<noteq> issue_url0" "commits_url0 \<noteq> labels_base"
  by (simp_all add: labels_base_def issue_url0_def comments_url0_def commits_url0_def)

lemma gh_pr_field [simp]:
  "pr_field (contribution ev) ''issue_url'' = Inr (JStr issue_url0)"
  "pr_field (contribution ev) ''comments_url'' = Inr (JStr comments_url0)"
  "pr_field (contribution ev) ''commits_url'' = Inr (JStr commits_url0)"
  by (simp_all add: pr_field_def contribution_def pull_request_event_def pull_request_payload_def)

lemma gh_get_issue:
  "get github_env (JStr issue_url0) s =
    (Inr (JObj [(''labels_url'', JStr labels_template)]),
     s\<lparr>trace := trace s @ [(fetch_call (JStr issue_url0),
                             answer 200 (Some (JObj [(''labels_url'', JStr labels_template)])))]\<rparr>)"
  by (simp add: get_def await_def send_def github_env_def github_session_def compute_def
      check_response_def return_def answer_def fetch_call_def)

lemma gh_get_labels:
  "get github_env (JStr labels_base) s =
    (Inr (JArr (map label_doc (gh_labels (world s)))),
     s\<lparr>trace := trace s @ [(list_call labels_base,
                             answer 200 (Some (JArr (map label_doc (gh_labels (world s))))))]\<rparr>)"
  by (simp add: get_def await_def send_def github_env_def github_session_def compute_def
      check_response_def return_def answer_def list_call_def)

lemma gh_step_ready: "gh_step s s' w' muts \<Longrightarrow> gh_ready s'"
  by (simp add: gh_step_def gh_ready_def)

lemma gh_step_mutations: "gh_step s s' w' muts \<Longrightarrow> mutations s s' = muts"
  by (auto simp: gh_step_def mutations_append)

lemma gh_step_world: "gh_step s s' w' muts \<Longrightarrow> world s' = w'"
  by (simp add: gh_step_def)

lemma gh_step_attr: "gh_step s s' w' muts \<Longrightarrow> labels_url_attr s' = Some (JStr labels_template)"
  by (simp add: gh_step_def)

lemma gh_step_trans:
  "gh_step s s' w' m1 \<Longrightarrow> gh_step s' s'' w'' m2 \<Longrightarrow> gh_step s s'' w'' (m1 @ m2)"
  by (auto simp: gh_step_def)

lemma gh_step_refl: "labels_url_attr s = Some (JStr labels_template) \<Longrightarrow> gh_step s s (world s) []"
  by (simp add: gh_step_def)

lemma github_env_simps [simp]:
  "session github_env = github_session"
  "quote github_env = percent_quote"
  "format_map github_env = expand_name"
  by (simp_all add: github_env_def)

lemma gh_labels_url:
  assumes "gh_ready s"
  shows "\<exists>s'. labels_url github_env (contribution ev) label s =
            (Inr (labels_base @ (case label of None \<Rightarrow> '''' | Some l \<Rightarrow> ''/'' @ percent_quote l)), s')
          \<and> gh_step s s' (world s) [] \<and> (labels_url_attr s \<noteq> None \<longrightarrow> s' = s)"
proof (cases "labels_url_attr s")
  case None
  have f: "andthen (py_getitem (request (contribution ev)) ''pull_request'')
            (\<lambda>pull_request. py_getitem pull_request ''issue_url'') = Inr (JStr issue_url0)"
    using gh_pr_field(1) [of ev] by (simp add: pr_field_def)
  show ?thesis
    unfolding labels_url_def Let_def f
    using None
    by (simp add: await_def read_labels_url_attr_def compute_def gh_get_issue
        write_labels_url_attr_def return_def gh_expand gh_step_def
        fetch_call_def cong: option.case_cong)
next
  case (Some a)
  with assms have a: "labels_url_attr s = Some (JStr labels_template)"
    by (simp add: gh_ready_def)
  show ?thesis
    unfolding labels_url_def Let_def
    using a
    by (simp add: await_def read_labels_url_attr_def compute_def
        return_def gh_expand gh_step_def cong: option.case_cong)
qed

lemma cla_names_docs:
  "cla_names (map label_doc ls) = Inr (filter (prefix LABEL_PREFIX) ls)"
  by (induction ls) (simp_all add: label_doc_def)

lemma gh_current_label:
  assumes "gh_ready s"
  shows "\<exists>s'. current_label github_env (contribution ev) s =
            (Inr (first_cla (gh_labels (world s))), s') \<and> gh_step s s' (world s) []"
proof -
  from gh_labels_url [OF assms, of ev None] obtain s1 where
    l: "labels_url github_env (contribution ev) None s = (Inr labels_base, s1)" and
    q: "gh_step s s1 (world s) []"
    by auto
  have w: "world s1 = world s" using q by (simp add: gh_step_def)
  let ?s' = "s1\<lparr>trace := trace s1 @ [(list_call labels_base,
                             answer 200 (Some (JArr (map label_doc (gh_labels (world s1))))))]\<rparr>"
  have "current_label github_env (contribution ev) s = (Inr (first_cla (gh_labels (world s))), ?s')"
    unfolding current_label_def
    by (simp add: await_def l gh_get_labels compute_def cla_names_docs return_def first_cla_def
        Let_def w)
  moreover have "gh_step s1 ?s' (world s) []"
    using q by (simp add: gh_step_def list_call_def)
  ultimately show ?thesis using gh_step_trans [OF q] by fastforce
qed

lemma first_cla_member: "first_cla ls = Some l \<Longrightarrow> l \<in> set ls \<and> prefix LABEL_PREFIX l"
proof -
  assume a: "first_cla ls = Some l"
  then have n: "filter (prefix LABEL_PREFIX) ls \<noteq> []"
    by (auto simp: first_cla_def Let_def split: if_splits)
  from a n have "l = sort (filter (prefix LABEL_PREFIX) ls) ! 0"
    by (auto simp: first_cla_def Let_def split: if_splits)
  with sort_first [OF n] show ?thesis by auto
qed

lemma gh_delete:
  assumes "l \<in> set (gh_labels (world s))"
    and "labels_url_attr s = Some (JStr labels_template)"
  shows "\<exists>s'. delete github_env (JStr (labels_base @ ''/'' @ percent_quote l)) s = (Inr (), s')
          \<and> gh_step s s' ((world s)\<lparr>gh_labels := removed_from (Some l) (gh_labels (world s))\<rparr>)
               [delete_call (labels_base @ ''/'' @ percent_quote l)]"
proof -
  have e: "labels_base @ ''/'' @ percent_quote l
             \<in> (\<lambda>l. labels_base @ ''/'' @ percent_quote l) ` set (gh_labels (world s))"
    using assms(1) by blast
  show ?thesis
    using assms(2) e
    by (simp add: delete_def await_def send_def github_session_def compute_def
        check_response_def return_def answer_def delete_call_def gh_step_def removed_from_def
        Let_def eq_commute [of "percent_quote l"])
qed

lemma gh_remove_label:
  assumes "gh_ready s"
  shows "\<exists>s'. remove_label github_env (contribution ev) s =
            (Inr (first_cla (gh_labels (world s))), s')
          \<and> gh_step s s'
               ((world s)\<lparr>gh_labels := removed_from (first_cla (gh_labels (world s))) (gh_labels (world s))\<rparr>)
               (removal_calls (first_cla (gh_labels (world s))))"
proof -
  let ?ls = "gh_labels (world s)"
  from gh_current_label [OF assms, of ev] obtain s1 where
    c: "current_label github_env (contribution ev) s = (Inr (first_cla ?ls), s1)" and
    q: "gh_step s s1 (world s) []"
    by auto
  have w1: "world s1 = world s" and a1: "labels_url_attr s1 = Some (JStr labels_template)"
    using q by (simp_all add: gh_step_def)
  show ?thesis
  proof (cases "first_cla ?ls")
    case None
    have "remove_label github_env (contribution ev) s = (Inr None, s1)"
      unfolding remove_label_def by (simp add: await_def c None return_def)
    with q None show ?thesis by (auto simp: removed_from_def removal_calls_def gh_step_def)
  next
    case (Some l)
    from first_cla_member [OF Some] w1 have m: "l \<in> set (gh_labels (world s1))" by simp
    from gh_labels_url [OF gh_step_ready [OF q], of ev "Some l"] a1
    have u: "labels_url github_env (contribution ev) (Some l) s1
               = (Inr (labels_base @ ''/'' @ percent_quote l), s1)"
      by auto
    from gh_delete [OF m a1] obtain s2 where
      d: "delete github_env (JStr (labels_base @ ''/'' @ percent_quote l)) s1 = (Inr (), s2)" and
      g: "gh_step s1 s2 ((world s1)\<lparr>gh_labels := removed_from (Some l) (gh_labels (world s1))\<rparr>)
               [delete_call (labels_base @ ''/'' @ percent_quote l)]"
      by auto
    have "remove_label github_env (contribution ev) s = (Inr (Some l), s2)"
      unfolding remove_label_def using c Some u d by (simp add: await_def return_def)
    moreover from gh_step_trans [OF q g] w1 Some
    have "gh_step s s2 ((world s)\<lparr>gh_labels := removed_from (first_cla ?ls) ?ls\<rparr>)
               (removal_calls (first_cla ?ls))"
      by (simp add: removal_calls_def)
    ultimately show ?thesis using Some by auto
  qed
qed

lemma gh_post_comment:
  assumes "labels_url_attr s = Some (JStr labels_template)"
  shows "\<exists>s'. post github_env (JStr comments_url0) (JObj [(''body'', JStr b)]) s = (Inr (), s')
          \<and> gh_step s s' ((world s)\<lparr>gh_comments := gh_comments (world s) @ [b]\<rparr>)
               [comment_call (JStr comments_url0) b]"
  using assms
  by (simp add: post_def await_def send_def github_session_def compute_def
      check_response_def return_def answer_def comment_call_def gh_step_def)

lemma gh_comment:
  assumes "labels_url_attr s = Some (JStr labels_template)"
  shows "\<exists>m s'. comment github_env (contribution ev) status s = (Inr m, s')
          \<and> gh_step s s' ((world s)\<lparr>gh_comments := gh_comments (world s) @ comment_texts status\<rparr>)
               (comment_posts status)"
proof -
  have f: "andthen (py_getitem (request (contribution ev)) ''pull_request'')
            (\<lambda>pull_request. py_getitem pull_request ''comments_url'') = Inr (JStr comments_url0)"
    using gh_pr_field(2) [of ev] by (simp add: pr_field_def)
  show ?thesis
  proof (cases status)
    case signed
    have "comment github_env (contribution ev) status s = (Inr None, s)"
      unfolding comment_def f by (simp add: compute_def signed return_def)
    with gh_step_refl [OF assms] signed show ?thesis
      by (auto simp: comment_texts_def comment_posts_def)
  next
    case not_signed
    from gh_post_comment [OF assms, of "NO_CLA_TEMPLATE NO_CLA_BODY"] obtain s' where
      p: "post github_env (JStr comments_url0) (JObj [(''body'', JStr (NO_CLA_TEMPLATE NO_CLA_BODY))]) s
            = (Inr (), s')" and
      g: "gh_step s s' ((world s)\<lparr>gh_comments := gh_comments (world s) @ [NO_CLA_TEMPLATE NO_CLA_BODY]\<rparr>)
               [comment_call (JStr comments_url0) (NO_CLA_TEMPLATE NO_CLA_BODY)]"
      by auto
    have "comment github_env (contribution ev) status s = (Inr (Some (NO_CLA_TEMPLATE NO_CLA_BODY)), s')"
      unfolding comment_def f by (simp add: compute_def not_signed await_def p return_def Let_def)
    with g not_signed show ?thesis
      by (auto simp: comment_texts_def comment_posts_def failure_body_def)
  next
    case username_not_found
    from gh_post_comment [OF assms, of "NO_CLA_TEMPLATE NO_USERNAME_BODY"] obtain s' where
      p: "post github_env (JStr comments_url0) (JObj [(''body'', JStr (NO_CLA_TEMPLATE NO_USERNAME_BODY))]) s
            = (Inr (), s')" and
      g: "gh_step s s' ((world s)\<lparr>gh_comments := gh_comments (world s) @ [NO_CLA_TEMPLATE NO_USERNAME_BODY]\<rparr>)
               [comment_call (JStr comments_url0) (NO_CLA_TEMPLATE NO_USERNAME_BODY)]"
      by auto
    have "comment github_env (contribution ev) status s = (Inr (Some (NO_CLA_TEMPLATE NO_USERNAME_BODY)), s')"
      unfolding comment_def f by (simp add: compute_def username_not_found await_def p return_def Let_def)
    with g username_not_found show ?thesis
      by (auto simp: comment_texts_def comment_posts_def failure_body_def)
  qed
qed

lemma gh_update_synchronize:
  assumes "gh_ready s"
  shows "\<exists>s'. update github_env (contribution synchronize) status s = (Inr (), s')
          \<and> gh_step s s' (after_synchronize status (world s)) (synchronize_calls status (world s))"
proof -
  let ?c = "contribution synchronize"
  let ?ls = "gh_labels (world s)"
  have e: "event ?c = synchronize" by (simp add: contribution_def)
  from gh_current_label [OF assms, of synchronize] obtain s1 where
    c: "current_label github_env ?c s = (Inr (first_cla ?ls), s1)" and
    q: "gh_step s s1 (world s) []"
    by auto
  have w1: "world s1 = world s" using q by (simp add: gh_step_def)
  show ?thesis
  proof (cases "first_cla ?ls = Some (target_label status)")
    case True
    have "update github_env ?c status s = (Inr (), s1)"
      unfolding update_def using True
      by (simp add: e await_def c return_def target_label_def split: if_splits)
    with q True show ?thesis
      by (auto simp: after_synchronize_def synchronize_calls_def)
  next
    case False
    from gh_remove_label [OF gh_step_ready [OF q], of synchronize] w1 obtain s2 where
      r: "remove_label github_env ?c s1 = (Inr (first_cla ?ls), s2)" and
      g: "gh_step s1 s2 ((world s)\<lparr>gh_labels := removed_from (first_cla ?ls) ?ls\<rparr>)
               (removal_calls (first_cla ?ls))"
      by auto
    from gh_comment [OF gh_step_attr [OF g], of synchronize status] gh_step_world [OF g]
    obtain m s3 where
      cm: "comment github_env ?c status s2 = (Inr m, s3)" and
      h: "gh_step s2 s3 ((world s)\<lparr>gh_labels := removed_from (first_cla ?ls) ?ls,
                                   gh_comments := gh_comments (world s) @ comment_texts status\<rparr>)
               (comment_posts status)"
      by auto
    show ?thesis
    proof (cases "status = signed")
      case True
      with False have "update github_env ?c status s = (Inr (), s2)"
        unfolding update_def
        by (simp add: e await_def c r return_def target_label_def)
      moreover from gh_step_trans [OF q g] True False
      have "gh_step s s2 (after_synchronize status (world s)) (synchronize_calls status (world s))"
        by (simp add: after_synchronize_def synchronize_calls_def comment_texts_def
            comment_posts_def)
      ultimately show ?thesis by blast
    next
      case unsigned: False
      with False have "update github_env ?c status s = (Inr (), s3)"
        unfolding update_def
        by (simp add: e await_def c r cm return_def target_label_def)
      moreover from gh_step_trans [OF gh_step_trans [OF q g] h] False
      have "gh_step s s3 (after_synchronize status (world s)) (synchronize_calls status (world s))"
        by (simp add: after_synchronize_def synchronize_calls_def)
      ultimately show ?thesis by blast
    qed
  qed
qed

lemma label_facts:
  "prefix LABEL_PREFIX CLA_OK" "prefix LABEL_PREFIX NO_CLA" "NO_CLA < CLA_OK"
  "CLA_OK \<noteq> NO_CLA" "NO_CLA \<noteq> CLA_OK"
  by (simp_all add: CLA_OK_def NO_CLA_def LABEL_PREFIX_def)

lemma quote_labels: "percent_quote CLA_OK \<noteq> percent_quote NO_CLA"
  by (simp add: CLA_OK_def NO_CLA_def LABEL_PREFIX_def percent_quote_def quote_char_def)

lemma sort_Nil_iff: "sort xs = [] \<longleftrightarrow> xs = []"
  by (metis length_0_conv length_sort)

lemma first_cla_canonical:
  assumes "canonical ls"
  shows "first_cla ls = (if NO_CLA \<in> set ls then Some NO_CLA
                         else if CLA_OK \<in> set ls then Some CLA_OK else None)"
proof (cases "filter (prefix LABEL_PREFIX) ls = []")
  case True
  then have "\<forall>l \<in> set ls. \<not> prefix LABEL_PREFIX l" by (simp add: filter_empty_conv)
  with label_facts(1,2) have "NO_CLA \<notin> set ls" "CLA_OK \<notin> set ls" by blast+
  with True show ?thesis by (simp add: first_cla_def)
next
  case False
  let ?xs = "filter (prefix LABEL_PREFIX) ls"
  let ?y = "sort ?xs ! 0"
  from sort_first [OF False] have y: "?y \<in> set ?xs" and le: "\<forall>x \<in> set ?xs. ?y \<le> x" by auto
  from y assms have c: "?y = CLA_OK \<or> ?y = NO_CLA" by (auto simp: canonical_def)
  have f: "first_cla ls = Some ?y" using False by (simp add: first_cla_def Let_def sort_Nil_iff)
  show ?thesis
  proof (cases "NO_CLA \<in> set ls")
    case True
    with label_facts(2) have "NO_CLA \<in> set ?xs" by simp
    with le have "?y \<le> NO_CLA" by blast
    with c label_facts(3) have "?y = NO_CLA" by auto
    with f True show ?thesis by simp
  next
    case no: False
    with y c have "?y = CLA_OK" by auto
    moreover from this y have "CLA_OK \<in> set ls" by auto
    ultimately show ?thesis using f no by simp
  qed
qed

lemma canonical_removed: "canonical ls \<Longrightarrow> canonical (removed_from r ls)"
  by (cases r) (auto simp: canonical_def removed_from_def)

lemma removed_NO_CLA:
  "NO_CLA \<notin> set (removed_from (Some NO_CLA) ls)"
  "CLA_OK \<in> set (removed_from (Some NO_CLA) ls) \<longleftrightarrow> CLA_OK \<in> set ls"
  using quote_labels by (auto simp: removed_from_def)

lemma removed_CLA_OK:
  "CLA_OK \<notin> set (removed_from (Some CLA_OK) ls)"
  "NO_CLA \<in> set (removed_from (Some CLA_OK) ls) \<longleftrightarrow> NO_CLA \<in> set ls"
  using quote_labels by (auto simp: removed_from_def)

lemma removed_None [simp]: "removed_from None ls = ls"
  by (simp add: removed_from_def)

lemma first_cla_after:
  assumes "canonical (gh_labels w)"
  shows "first_cla (gh_labels (after_synchronize status w)) =
           (if NO_CLA \<in> set (gh_labels w) then
              (if status = signed then (if CLA_OK \<in> set (gh_labels w) then Some CLA_OK else None)
               else Some NO_CLA)
            else if CLA_OK \<in> set (gh_labels w) \<and> status = signed then Some CLA_OK
            else None)"
proof -
  note f = first_cla_canonical [OF assms]
  show ?thesis
  proof (cases "first_cla (gh_labels w) = Some (target_label status)")
    case True
    then have "after_synchronize status w = w" by (simp add: after_synchronize_def)
    with True f show ?thesis
      using label_facts(4,5) by (auto simp: target_label_def split: if_splits)
  next
    case False
    then have a: "gh_labels (after_synchronize status w)
                    = removed_from (first_cla (gh_labels w)) (gh_labels w)"
      by (simp add: after_synchronize_def)
    have c: "canonical (removed_from (first_cla (gh_labels w)) (gh_labels w))"
      by (rule canonical_removed [OF assms])
    show ?thesis
      unfolding a first_cla_canonical [OF c]
      using False f removed_NO_CLA [of "gh_labels w"] removed_CLA_OK [of "gh_labels w"]
      by (auto simp: target_label_def split: if_splits)
  qed
qed

lemma synchronize_again:
  assumes "canonical (gh_labels w)"
  shows "if status = signed \<or> NO_CLA \<in> set (gh_labels w) then
           synchronize_calls status (after_synchronize status w) = []
           \<and> after_synchronize status (after_synchronize status w) = after_synchronize status w
         else
           synchronize_calls status (after_synchronize status w) = comment_posts status
           \<and> after_synchronize status (after_synchronize status w) =
               (after_synchronize status w)
                 \<lparr>gh_comments := gh_comments (after_synchronize status w) @ comment_texts status\<rparr>"
proof -
  let ?w = "after_synchronize status w"
  note f = first_cla_after [OF assms, of status]
  show ?thesis
  proof (cases "status = signed \<or> NO_CLA \<in> set (gh_labels w)")
    case True
    then have "first_cla (gh_labels ?w) = Some (target_label status)
               \<or> (status = signed \<and> first_cla (gh_labels ?w) = None)"
      using f by (auto simp: target_label_def)
    then show ?thesis
      using True
      by (auto simp: synchronize_calls_def after_synchronize_def [of status ?w]
          removal_calls_def comment_posts_def comment_texts_def)
  next
    case False
    then have n: "first_cla (gh_labels ?w) = None" using f by auto
    then show ?thesis
      using False
      by (auto simp: synchronize_calls_def after_synchronize_def [of status ?w]
          removal_calls_def)
  qed
qed

text \<open>
  Claim C2, as stated, fails. A \<^verbatim>\<open>synchronize\<close> run never sets a label: with the status
  \<open>not_signed\<close> and the label \<open>CLA_OK\<close> on the pull request, the first run deletes the
  label and posts the comment; the second run finds no label, which differs from
  \<open>NO_CLA\<close>, and posts the comment again. The pull request holds two comments after two
  runs and one after one run.
\<close>

theorem synchronize_twice_counterexample:
  "fst (update github_env (contribution synchronize) not_signed (start (pull_request0 [CLA_OK])))
     = Inr ()
   \<and> fst (update github_env (contribution synchronize) not_signed
           (snd (update github_env (contribution synchronize) not_signed
                   (start (pull_request0 [CLA_OK]))))) = Inr ()
   \<and> mutations
        (snd (update github_env (contribution synchronize) not_signed
                (start (pull_request0 [CLA_OK]))))
        (snd (update github_env (contribution synchronize) not_signed
                (snd (update github_env (contribution synchronize) not_signed
                        (start (pull_request0 [CLA_OK]))))))
      = [comment_call (JStr comments_url0) (NO_CLA_TEMPLATE NO_CLA_BODY)]
   \<and> gh_comments (world
        (snd (update github_env (contribution synchronize) not_signed
                (start (pull_request0 [CLA_OK])))))
      = [NO_CLA_TEMPLATE NO_CLA_BODY]
   \<and> gh_comments (world
        (snd (update github_env (contribution synchronize) not_signed
                (snd (update github_env (contribution synchronize) not_signed
                        (start (pull_request0 [CLA_OK])))))))
      = [NO_CLA_TEMPLATE NO_CLA_BODY, NO_CLA_TEMPLATE NO_CLA_BODY]"
  by code_simp

text \<open>
  Claim C2, amended. On the reference remote side, for a pull request whose labels with
  the prefix are among \<open>CLA_OK\<close> and \<open>NO_CLA\<close>, two \<^verbatim>\<open>synchronize\<close> runs in sequence with
  the same status (the second on the same \<open>Host\<close> object or on a fresh one) both return.
  When the status is \<open>signed\<close>, or the pull request carried \<open>NO_CLA\<close> before the first run,
  the second run makes no request that changes the pull request and leaves it as the first
  run left it. Otherwise (status \<open>not_signed\<close> or \<open>username_not_found\<close>, no \<open>NO_CLA\<close> label)
  the second run deletes nothing and sets nothing, and posts the comment of the status once
  more.
\<close>

theorem synchronize_twice:
  assumes canon: "\<forall>l \<in> set (gh_labels (world s)). prefix LABEL_PREFIX l \<longrightarrow> l = CLA_OK \<or> l = NO_CLA"
    and ready: "gh_ready s"
    and first: "update github_env (contribution synchronize) status s = (r1, s1)"
    and again: "world s1' = world s1" "gh_ready s1'"
    and second: "update github_env (contribution synchronize) status s1' = (r2, s2)"
  shows "r1 = Inr () \<and> r2 = Inr () \<and>
         (if status = signed \<or> NO_CLA \<in> set (gh_labels (world s)) then
            mutations s1' s2 = [] \<and> world s2 = world s1
          else
            mutations s1' s2 =
              [comment_call (JStr comments_url0) (NO_CLA_TEMPLATE (failure_body status))]
            \<and> world s2 = (world s1)
                 \<lparr>gh_comments := gh_comments (world s1) @ [NO_CLA_TEMPLATE (failure_body status)]\<rparr>)"
proof -
  from canon have c: "canonical (gh_labels (world s))" by (simp add: canonical_def)
  from gh_update_synchronize [OF ready, of status] first
  have r1: "r1 = Inr ()" and g1: "gh_step s s1 (after_synchronize status (world s))
                                    (synchronize_calls status (world s))"
    by auto
  from gh_step_world [OF g1] again(1)
  have w1: "world s1' = after_synchronize status (world s)" by simp
  from gh_update_synchronize [OF again(2), of status] second w1
  have r2: "r2 = Inr ()" and
    g2: "gh_step s1' s2 (after_synchronize status (after_synchronize status (world s)))
           (synchronize_calls status (after_synchronize status (world s)))"
    by auto
  note m = gh_step_mutations [OF g2] and w = gh_step_world [OF g2] and a = synchronize_again [OF c, of status]
  show ?thesis
  proof (cases "status = signed \<or> NO_CLA \<in> set (gh_labels (world s))")
    case True
    with a m w r1 r2 w1 again(1) show ?thesis by auto
  next
    case False
    then have "comment_posts status =
                 [comment_call (JStr comments_url0) (NO_CLA_TEMPLATE (failure_body status))]"
      and "comment_texts status = [NO_CLA_TEMPLATE (failure_body status)]"
      by (simp_all add: comment_posts_def comment_texts_def)
    with False a m w r1 r2 w1 again(1) show ?thesis by auto
  qed
qed

theorem synchronize_twice_witness:
  "fst (update github_env (contribution synchronize) signed
          (start (pull_request0 [''bug'', NO_CLA]))) = Inr ()
   \<and> fst (update github_env (contribution synchronize) signed
           (snd (update github_env (contribution synchronize) signed
                   (start (pull_request0 [''bug'', NO_CLA]))))) = Inr ()
   \<and> mutations
        (snd (update github_env (contribution synchronize) signed
                (start (pull_request0 [''bug'', NO_CLA]))))
        (snd (update github_env (contribution synchronize) signed
                (snd (update github_env (contribution synchronize) signed
                        (start (pull_request0 [''bug'', NO_CLA])))))) = []
   \<and> world (snd (update github_env (contribution synchronize) signed
                (snd (update github_env (contribution synchronize) signed
                        (start (pull_request0 [''bug'', NO_CLA]))))))
      = world (snd (update github_env (contribution synchronize) signed
                (start (pull_request0 [''bug'', NO_CLA]))))"
proof -
  let ?s = "start (pull_request0 [''bug'', NO_CLA])"
  let ?r1 = "update github_env (contribution synchronize) signed ?s"
  let ?r2 = "update github_env (contribution synchronize) signed (snd ?r1)"
  have c: "\<forall>l \<in> set (gh_labels (world ?s)). prefix LABEL_PREFIX l \<longrightarrow> l = CLA_OK \<or> l = NO_CLA"
    by (simp add: start_def pull_request0_def LABEL_PREFIX_def)
  have g: "gh_ready ?s" by (simp add: gh_ready_def start_def)
  have g1: "gh_ready (snd ?r1)" by code_simp
  have p1: "?r1 = (fst ?r1, snd ?r1)" and p2: "?r2 = (fst ?r2, snd ?r2)" by simp_all
  from synchronize_twice [OF c g p1 refl g1 p2] show ?thesis by simp
qed

end
